theory Spec2Isabelle
  imports Main
begin

section \<open>Values carried by frames\<close>

text \<open>
  \<^verbatim>\<open>handleMessage\<close> works on the untyped result of \<^verbatim>\<open>JSON.parse\<close>. The
  parsed value is modelled by a datatype of JSON values; numbers are the integers
  (timestamps are milliseconds), an object is the list of its own properties and a
  property that is absent reads as \<open>None\<close> (JavaScript's \<^verbatim>\<open>undefined\<close>).
\<close>

datatype json =
    JNull
  | JBool bool
  | JNum int
  | JStr string
  | JArr "json list"
  | JObj "(string \<times> json) list"

text \<open>JavaScript truthiness, as used by \<^verbatim>\<open>if (v)\<close>, \<^verbatim>\<open>v && w\<close> and \<^verbatim>\<open>v || w\<close>.\<close>

fun truthy :: "json \<Rightarrow> bool" where
  "truthy JNull = False"
| "truthy (JBool b) = b"
| "truthy (JNum n) = (n \<noteq> 0)"
| "truthy (JStr s) = (s \<noteq> [])"
| "truthy (JArr xs) = True"
| "truthy (JObj kvs) = True"

definition truthy_opt :: "json option \<Rightarrow> bool" where
  "truthy_opt v = (case v of None \<Rightarrow> False | Some j \<Rightarrow> truthy j)"

text \<open>
  Reading a property \<^verbatim>\<open>m.k\<close> of a value that is not \<^verbatim>\<open>null\<close>: only objects
  have the properties read by this program. Reading a property of \<^verbatim>\<open>null\<close>
  throws, which \<open>handleMessage\<close> treats below.
\<close>

definition property :: "json \<Rightarrow> string \<Rightarrow> json option" where
  "property m k = (case m of JObj kvs \<Rightarrow> map_of kvs k | _ \<Rightarrow> None)"

section \<open>Sessions and events (types.ts)\<close>

record DonationSession =
  session_id :: string
  project_id :: string
  creator_wallet :: string
  donor_wallet :: string
  chain_id :: int
  contract_address :: string
  amount :: string
  memo :: string
  status :: string
  created_at :: string
  tx_hash :: string
  session_id_hash :: string
  requires_confirmation :: bool
  estimated_confirmation_time :: int

text \<open>
  \<^verbatim>\<open>DonationSession\<close>; the field \<^verbatim>\<open>id\<close> is named \<open>session_id\<close> here.
\<close>

text \<open>
  The session snapshot of an event is whatever the producer put there: the raw
  \<^verbatim>\<open>session\<close> property of a frame (possibly absent), or the session fetched
  by the poller.
\<close>

datatype snapshot = FromFrame "json option" | FromPoll DonationSession

text \<open>
  \<^verbatim>\<open>DonationEvent\<close>. The interface declares \<^verbatim>\<open>type\<close> as a union of six string
  literals and \<^verbatim>\<open>timestamp\<close> as a number, but the objects are built from untyped
  values, so both fields hold whatever value was assigned.
\<close>

record DonationEvent =
  type :: json
  session :: snapshot
  timestamp :: json
  error :: "json option"

text \<open>The six members of the union type of \<^verbatim>\<open>DonationEvent.type\<close>.\<close>

definition event_kinds :: "string list" where
  "event_kinds = [''connection_open'', ''connection_lost'', ''donation_pending'',
     ''donation_confirmed'', ''donation_finalized'', ''donation_failed'']"

section \<open>WebSocketManager (websocket.ts)\<close>

subsection \<open>The manager and what it runs on\<close>

datatype ready_state = CONNECTING | OPEN | CLOSING | CLOSED

text \<open>
  A callback registered with \<^verbatim>\<open>on\<close> is opaque: either a subscriber's function,
  named by a number, or the arrow function that \<^verbatim>\<open>setupEventForwarding\<close> of the
  facade registers. Invoking a callback is recorded as an effect; what the
  subscriber's function does is outside the program.
\<close>

datatype callback = Subscriber nat | FacadeForward

text \<open>What a timer created by the manager runs when it fires.\<close>

datatype timer_kind =
    ReconnectTimer
  | RequestTimeout string
  | HeartbeatTimer

record timer =
  kind :: timer_kind
  delay :: int

record PendingCallback =
  timeout :: nat

datatype failure =
    NotConnected
  | RequestTimedOut
  | ReplyError json
  | SendThrew
  | ConstructorThrew
  | SocketError

datatype console =
    LogConnected
  | LogSocketError
  | LogDisconnected
  | LogParseFailed
  | LogReconnecting int nat int
  | LogMaxReached

text \<open>
  Everything the manager does to the outside, in the order it does it: console
  output, operations on sockets, invocations of callbacks, and the calls of
  \<^verbatim>\<open>resolve\<close> and \<^verbatim>\<open>reject\<close> of the promises returned by \<^verbatim>\<open>connect\<close> (named
  by the socket the call created) and by \<^verbatim>\<open>send\<close> (named by the request
  identifier).
\<close>

datatype effect =
    Console console
  | NewSocket nat string string string
  | CloseSocket nat
  | Transmit nat json
  | Ping nat
  | Invoke callback DonationEvent
  | ConnectResolve nat
  | ConnectReject nat failure
  | ConnectRejectNow failure
  | RequestResolve string "json option"
  | RequestReject string failure

text \<open>
  The fields of the class, followed by the runtime the class runs on: the ready
  state of every socket created so far (a handle is an index into this list), the
  timers that are armed, the next timer handle, and the effects so far.
  \<^verbatim>\<open>reconnectAttempts\<close> only ever holds 0 or the result of increments; the two
  configuration numbers are arbitrary integers, and the delay of a timer is the
  number given to \<^verbatim>\<open>setTimeout\<close> or \<^verbatim>\<open>setInterval\<close>.
\<close>

record WebSocketManager =
  ws :: "nat option"
  url :: string
  apiKey :: string
  projectId :: string
  reconnectAttempts :: nat
  maxReconnectAttempts :: int
  reconnectDelay :: int
  heartbeatInterval :: "nat option"
  listeners :: "string \<rightharpoonup> callback list"
  pendingRequests :: "string \<rightharpoonup> PendingCallback"
  messageId :: nat
  sockets :: "ready_state list"
  timers :: "(nat \<times> timer) list"
  nextTimer :: nat
  effects :: "effect list"

definition new_WebSocketManager ::
  "string \<Rightarrow> string \<Rightarrow> string \<Rightarrow> int \<Rightarrow> int \<Rightarrow> WebSocketManager" where
  "new_WebSocketManager u k p maxAttempts baseDelay =
     \<lparr> ws = None, url = u, apiKey = k, projectId = p,
       reconnectAttempts = 0, maxReconnectAttempts = maxAttempts,
       reconnectDelay = baseDelay, heartbeatInterval = None,
       listeners = Map.empty, pendingRequests = Map.empty, messageId = 0,
       sockets = [], timers = [], nextTimer = 0, effects = [] \<rparr>"

definition emit_effect :: "effect \<Rightarrow> WebSocketManager \<Rightarrow> WebSocketManager" where
  "emit_effect e s = s\<lparr>effects := effects s @ [e]\<rparr>"

definition readyState :: "WebSocketManager \<Rightarrow> nat \<Rightarrow> ready_state" where
  "readyState s i = (if i < length (sockets s) then sockets s ! i else CLOSED)"

text \<open>\<^verbatim>\<open>setTimeout\<close> and \<^verbatim>\<open>setInterval\<close> arm a timer and return its handle.\<close>

definition arm_timer :: "timer_kind \<Rightarrow> int \<Rightarrow> WebSocketManager \<Rightarrow> WebSocketManager" where
  "arm_timer k d s =
     s\<lparr>timers := timers s @ [(nextTimer s, \<lparr>kind = k, delay = d\<rparr>)],
       nextTimer := Suc (nextTimer s)\<rparr>"

text \<open>
  \<^verbatim>\<open>clearTimeout\<close> and \<^verbatim>\<open>clearInterval\<close>. A handle is a \<^verbatim>\<open>Timeout\<close> object, so
  the tests \<^verbatim>\<open>if (this.heartbeatInterval)\<close> and \<^verbatim>\<open>if (interval)\<close> only ask whether
  there is one; the numbers merely name the handles.
\<close>

definition clear_timer :: "nat \<Rightarrow> WebSocketManager \<Rightarrow> WebSocketManager" where
  "clear_timer t s = s\<lparr>timers := filter (\<lambda>e. fst e \<noteq> t) (timers s)\<rparr>"

subsection \<open>Subscriptions\<close>

definition on :: "string \<Rightarrow> callback \<Rightarrow> WebSocketManager \<Rightarrow> WebSocketManager" where
  "on event cb s =
     s\<lparr>listeners := (listeners s)(event \<mapsto>
          (case listeners s event of None \<Rightarrow> [] | Some cbs \<Rightarrow> cbs) @ [cb])\<rparr>"

definition off :: "string \<Rightarrow> callback \<Rightarrow> WebSocketManager \<Rightarrow> WebSocketManager" where
  "off event cb s =
     (case listeners s event of
        None \<Rightarrow> s
      | Some cbs \<Rightarrow> s\<lparr>listeners := (listeners s)(event \<mapsto> remove1 cb cbs)\<rparr>)"

text \<open>
  \<^verbatim>\<open>emit\<close> runs \<^verbatim>\<open>callbacks.forEach\<close>, each callback inside a \<^verbatim>\<open>try\<close>. The
  manager's subscribers are taken here to return without touching the manager's registry
  while they run: the invocations are then those of the callbacks of the kind, in
  registration order. This is so inside the facade, whose manager is private and
  has the forwarding arrows as its only subscribers; for the facade's own
  subscribers, which may unsubscribe and throw during a broadcast, the loop is
  modelled visit by visit in \<open>forEach\<close> below.
\<close>

definition emit :: "string \<Rightarrow> DonationEvent \<Rightarrow> WebSocketManager \<Rightarrow> WebSocketManager" where
  "emit event data s =
     (case listeners s event of
        None \<Rightarrow> s
      | Some cbs \<Rightarrow> s\<lparr>effects := effects s @ map (\<lambda>cb. Invoke cb data) cbs\<rparr>)"

subsection \<open>Heartbeat and reconnection\<close>

definition startHeartbeat :: "WebSocketManager \<Rightarrow> WebSocketManager" where
  "startHeartbeat s =
     (arm_timer HeartbeatTimer 30000 s)\<lparr>heartbeatInterval := Some (nextTimer s)\<rparr>"

definition stopHeartbeat :: "WebSocketManager \<Rightarrow> WebSocketManager" where
  "stopHeartbeat s =
     (case heartbeatInterval s of
        None \<Rightarrow> s
      | Some t \<Rightarrow> (clear_timer t s)\<lparr>heartbeatInterval := None\<rparr>)"

definition attemptReconnect :: "WebSocketManager \<Rightarrow> WebSocketManager" where
  "attemptReconnect s =
     (if int (reconnectAttempts s) < maxReconnectAttempts s then
        let n = Suc (reconnectAttempts s);
            d = reconnectDelay s * 2 ^ (n - 1)
        in arm_timer ReconnectTimer d
             (emit_effect (Console (LogReconnecting d n (maxReconnectAttempts s)))
                (s\<lparr>reconnectAttempts := n\<rparr>))
      else emit_effect (Console LogMaxReached) s)"

subsection \<open>connect and the handlers it installs\<close>

text \<open>
  \<^verbatim>\<open>connect\<close> constructs a socket and installs four handlers on it. The
  constructor may throw (the flag), in which case the promise is rejected at once
  and the handle keeps its old value.
\<close>

definition connect :: "bool \<Rightarrow> WebSocketManager \<Rightarrow> WebSocketManager" where
  "connect constructor_throws s =
     (if constructor_throws then emit_effect (ConnectRejectNow ConstructorThrew) s
      else let i = length (sockets s)
           in emit_effect (NewSocket i (url s) (apiKey s) (projectId s))
                (s\<lparr>ws := Some i, sockets := sockets s @ [CONNECTING]\<rparr>))"

definition connection_event :: "string \<Rightarrow> int \<Rightarrow> DonationEvent" where
  "connection_event k now =
     \<lparr> type = JStr k, session = FromFrame (Some (JObj [])), timestamp = JNum now,
       error = None \<rparr>"

definition onopen :: "nat \<Rightarrow> int \<Rightarrow> WebSocketManager \<Rightarrow> WebSocketManager" where
  "onopen i now s =
     emit_effect (ConnectResolve i)
       (emit ''connection_open'' (connection_event ''connection_open'' now)
          (startHeartbeat
             ((emit_effect (Console LogConnected) s)\<lparr>reconnectAttempts := 0\<rparr>)))"

definition onerror :: "nat \<Rightarrow> WebSocketManager \<Rightarrow> WebSocketManager" where
  "onerror i s =
     emit_effect (ConnectReject i SocketError) (emit_effect (Console LogSocketError) s)"

definition onclose :: "int \<Rightarrow> WebSocketManager \<Rightarrow> WebSocketManager" where
  "onclose now s =
     attemptReconnect
       (emit ''connection_lost'' (connection_event ''connection_lost'' now)
          (stopHeartbeat (emit_effect (Console LogDisconnected) s)))"

subsection \<open>Message routing\<close>

text \<open>
  \<^verbatim>\<open>message.id && this.pendingRequests.has(message.id)\<close>: the keys of the map
  are strings, so only a truthy (non-empty) string can be found there.
\<close>

definition pending_match :: "json \<Rightarrow> WebSocketManager \<Rightarrow> string option" where
  "pending_match message s =
     (case property message ''id'' of
        Some (JStr k) \<Rightarrow>
          if k \<noteq> [] \<and> pendingRequests s k \<noteq> None then Some k else None
      | _ \<Rightarrow> None)"

definition settle_reply :: "string \<Rightarrow> json \<Rightarrow> WebSocketManager \<Rightarrow> WebSocketManager" where
  "settle_reply k message s =
     (case property message ''error'' of
        None \<Rightarrow> emit_effect (RequestResolve k (property message ''data'')) s
      | Some e \<Rightarrow>
          if truthy e then emit_effect (RequestReject k (ReplyError e)) s
          else emit_effect (RequestResolve k (property message ''data'')) s)"

definition frame_event :: "json \<Rightarrow> json \<Rightarrow> int \<Rightarrow> DonationEvent" where
  "frame_event t message now =
     \<lparr> type = t,
       session = FromFrame (property message ''session''),
       timestamp = (case property message ''timestamp'' of
                      None \<Rightarrow> JNum now
                    | Some v \<Rightarrow> if truthy v then v else JNum now),
       error = property message ''error'' \<rparr>"

text \<open>
  The body of the \<^verbatim>\<open>try\<close> block for a parsed value that is not \<^verbatim>\<open>null\<close>. A
  kind that is not a string finds no entry in the registry, whose keys are
  strings.
\<close>

definition route :: "json \<Rightarrow> int \<Rightarrow> WebSocketManager \<Rightarrow> WebSocketManager" where
  "route message now s =
     (case pending_match message s of
        Some k \<Rightarrow>
          (case pendingRequests s k of
             None \<Rightarrow> s
           | Some pending \<Rightarrow>
               settle_reply k message
                 ((clear_timer (timeout pending) s)
                    \<lparr>pendingRequests := (pendingRequests s)(k := None)\<rparr>))
      | None \<Rightarrow>
          (case property message ''type'' of
             None \<Rightarrow> s
           | Some t \<Rightarrow>
               if truthy t then
                 (case t of
                    JStr event \<Rightarrow> emit event (frame_event t message now) s
                  | _ \<Rightarrow> s)
               else s))"

text \<open>
  \<^verbatim>\<open>handleMessage\<close> takes the frame as the result of \<^verbatim>\<open>JSON.parse\<close>: \<open>None\<close>
  when parsing throws. Reading \<^verbatim>\<open>message.id\<close> of \<^verbatim>\<open>null\<close> throws as well; both
  end in the \<^verbatim>\<open>catch\<close> block.
\<close>

definition handleMessage :: "json option \<Rightarrow> int \<Rightarrow> WebSocketManager \<Rightarrow> WebSocketManager" where
  "handleMessage parsed now s =
     (case parsed of
        None \<Rightarrow> emit_effect (Console LogParseFailed) s
      | Some message \<Rightarrow>
          if message = JNull then emit_effect (Console LogParseFailed) s
          else route message now s)"

subsection \<open>send\<close>

text \<open>\<^verbatim>\<open>String(n)\<close> for a natural number: its decimal digits.\<close>

definition digit :: "nat \<Rightarrow> char" where
  "digit d = ''0123456789'' ! d"

fun decimal :: "nat \<Rightarrow> string" where
  "decimal n =
     (if n < 10 then [digit n]
      else decimal (n div 10) @ [digit (n mod 10)])"

text \<open>
  \<^verbatim>\<open>{ id, ...data }\<close>: the identifier comes first and a property \<^verbatim>\<open>id\<close> of the
  payload replaces its value.
\<close>

definition with_id :: "string \<Rightarrow> (string \<times> json) list \<Rightarrow> json" where
  "with_id k data =
     JObj ((''id'', (case map_of data ''id'' of None \<Rightarrow> JStr k | Some v \<Rightarrow> v))
           # filter (\<lambda>kv. fst kv \<noteq> ''id'') data)"

text \<open>
  \<^verbatim>\<open>send\<close>; the flag says whether \<^verbatim>\<open>this.ws.send(JSON.stringify(message))\<close>
  throws. The promise is named by the request identifier, or rejected before an
  identifier is taken.
\<close>

datatype send_result = Rejected failure | Awaiting string

definition send ::
  "(string \<times> json) list \<Rightarrow> bool \<Rightarrow> WebSocketManager \<Rightarrow> send_result \<times> WebSocketManager" where
  "send data transmit_throws s =
     (case ws s of
        None \<Rightarrow> (Rejected NotConnected, s)
      | Some i \<Rightarrow>
          if readyState s i \<noteq> OPEN then (Rejected NotConnected, s)
          else
            let k = decimal (Suc (messageId s));
                t = nextTimer s;
                s1 = arm_timer (RequestTimeout k) 15000 (s\<lparr>messageId := Suc (messageId s)\<rparr>);
                s2 = s1\<lparr>pendingRequests := (pendingRequests s1)(k \<mapsto> \<lparr>timeout = t\<rparr>)\<rparr>
            in if transmit_throws then
                 (Rejected SendThrew,
                  emit_effect (RequestReject k SendThrew)
                    ((clear_timer t s2)\<lparr>pendingRequests := (pendingRequests s2)(k := None)\<rparr>))
               else (Awaiting k, emit_effect (Transmit i (with_id k data)) s2))"

subsection \<open>disconnect and isConnected\<close>

text \<open>
  \<^verbatim>\<open>close()\<close> of a socket: nothing when it is closed already, otherwise the
  socket is closing and reports the closure later through its \<^verbatim>\<open>onclose\<close>
  handler.
\<close>

definition close_socket :: "nat \<Rightarrow> WebSocketManager \<Rightarrow> WebSocketManager" where
  "close_socket i s =
     emit_effect (CloseSocket i)
       (if readyState s i = CLOSED then s
        else s\<lparr>sockets := (sockets s)[i := CLOSING]\<rparr>)"

definition disconnect :: "WebSocketManager \<Rightarrow> WebSocketManager" where
  "disconnect s =
     (let s1 = stopHeartbeat s
      in case ws s1 of
           None \<Rightarrow> s1
         | Some i \<Rightarrow> (close_socket i s1)\<lparr>ws := None\<rparr>)"

definition isConnected :: "WebSocketManager \<Rightarrow> bool" where
  "isConnected s = (case ws s of None \<Rightarrow> False | Some i \<Rightarrow> readyState s i = OPEN)"

subsection \<open>Timers firing\<close>

text \<open>
  The three functions given to \<^verbatim>\<open>setTimeout\<close> and \<^verbatim>\<open>setInterval\<close>. A timeout is
  gone once it has fired; the heartbeat interval stays armed.
\<close>

definition fire :: "nat \<Rightarrow> timer_kind \<Rightarrow> bool \<Rightarrow> WebSocketManager \<Rightarrow> WebSocketManager" where
  "fire t k constructor_throws s =
     (case k of
        ReconnectTimer \<Rightarrow> connect constructor_throws (clear_timer t s)
      | RequestTimeout r \<Rightarrow>
          emit_effect (RequestReject r RequestTimedOut)
            ((clear_timer t s)\<lparr>pendingRequests := (pendingRequests s)(r := None)\<rparr>)
      | HeartbeatTimer \<Rightarrow>
          (case ws s of
             None \<Rightarrow> s
           | Some i \<Rightarrow> if readyState s i = OPEN then emit_effect (Ping i) s else s))"

subsection \<open>Runs of the manager\<close>

text \<open>
  What can happen to a manager: a call of its public interface, an event of one
  of its sockets, or a timer firing. A socket reports \<^verbatim>\<open>open\<close> only while it is
  connecting, a message only while it is open, an error or its closure only
  while it is not closed; a timer fires only while it is armed. An input that
  cannot happen in a state leaves the state as it is.
\<close>

datatype input =
    CallConnect bool
  | CallDisconnect
  | CallSend "(string \<times> json) list" bool
  | CallOn string callback
  | CallOff string callback
  | SocketOpens nat int
  | SocketMessage nat "json option" int
  | SocketErrors nat
  | SocketCloses nat int
  | TimerFires nat bool

fun step :: "input \<Rightarrow> WebSocketManager \<Rightarrow> WebSocketManager" where
  "step (CallConnect c) s = connect c s"
| "step CallDisconnect s = disconnect s"
| "step (CallSend data c) s = snd (send data c s)"
| "step (CallOn event cb) s = on event cb s"
| "step (CallOff event cb) s = off event cb s"
| "step (SocketOpens i now) s =
     (if i < length (sockets s) \<and> sockets s ! i = CONNECTING
      then onopen i now (s\<lparr>sockets := (sockets s)[i := OPEN]\<rparr>) else s)"
| "step (SocketMessage i parsed now) s =
     (if i < length (sockets s) \<and> sockets s ! i = OPEN
      then handleMessage parsed now s else s)"
| "step (SocketErrors i) s =
     (if i < length (sockets s) \<and> sockets s ! i \<noteq> CLOSED then onerror i s else s)"
| "step (SocketCloses i now) s =
     (if i < length (sockets s) \<and> sockets s ! i \<noteq> CLOSED
      then onclose now (s\<lparr>sockets := (sockets s)[i := CLOSED]\<rparr>) else s)"
| "step (TimerFires t c) s =
     (case map_of (timers s) t of
        None \<Rightarrow> s
      | Some tm \<Rightarrow> fire t (kind tm) c s)"

fun run :: "input list \<Rightarrow> WebSocketManager \<Rightarrow> WebSocketManager" where
  "run [] s = s"
| "run (x # xs) s = run xs (step x s)"

section \<open>RestClient (rest.ts)\<close>

subsection \<open>Strings that are trimmed\<close>

text \<open>
  \<^verbatim>\<open>String.prototype.trim\<close> removes the white space and line terminators of
  ECMAScript from both ends. Several of them lie outside one byte, so the wallet
  argument is a list of UTF-16 code units.
\<close>

type_synonym code_units = "nat list"

definition is_white_space :: "nat \<Rightarrow> bool" where
  "is_white_space c \<longleftrightarrow>
     c \<in> {9, 10, 11, 12, 13, 32, 160, 5760, 8232, 8233, 8239, 8287, 12288, 65279}
     \<or> (8192 \<le> c \<and> c \<le> 8202)"

definition trim :: "code_units \<Rightarrow> code_units" where
  "trim w = rev (dropWhile is_white_space (rev (dropWhile is_white_space w)))"

subsection \<open>The client and what it runs on\<close>

text \<open>
  The options of \<^verbatim>\<open>createDonationSession\<close>. \<^verbatim>\<open>creatorWallet\<close> is \<open>None\<close> when the
  caller passes \<^verbatim>\<open>undefined\<close> or \<^verbatim>\<open>null\<close>; the option \<^verbatim>\<open>amount\<close> is named
  \<open>requested_amount\<close> here.
\<close>

record create_options =
  requested_amount :: json
  currency :: string
  network :: string
  creatorWallet :: "code_units option"
  donorWallet :: "string option"
  metadata :: "json option"

text \<open>
  The callback given to \<^verbatim>\<open>startPolling\<close>: a caller's function, named by a
  number, or the arrow function of the facade's \<^verbatim>\<open>createDonationSession\<close>.
\<close>

datatype poll_callback = PollSubscriber nat | FacadePoll

text \<open>
  The outcome of awaiting a request: it throws (network failure, a response that
  is not ok, a body that does not parse) or yields the body. The body is taken at
  the type the code casts it to, \<^verbatim>\<open>DonationSession\<close>, with any string as status.
\<close>

datatype 'a fetched = Failed | Fetched 'a

datatype rest_failure = CreatorWalletRequired | CreateFailed

datatype rest_effect =
    PostSession create_options
  | GetSession string
  | InvokePoll poll_callback DonationSession
  | ClearInterval nat
  | PollingError string

text \<open>
  The field \<^verbatim>\<open>pollingIntervals\<close> of the class (a \<^verbatim>\<open>Map\<close>, in insertion order),
  followed by the runtime: the armed interval timers (handle, and the session and
  callback its function has captured), the next handle, the ticks whose request is
  in flight, and the effects so far. The fields \<^verbatim>\<open>apiKey\<close> and \<^verbatim>\<open>projectId\<close>
  carry the prefix \<open>rest\<close>.
\<close>

record RestClient =
  baseUrl :: string
  rest_apiKey :: string
  rest_projectId :: string
  pollingIntervals :: "(string \<times> nat) list"
  intervals :: "(nat \<times> string \<times> poll_callback) list"
  nextInterval :: nat
  inflight :: "(string \<times> poll_callback) list"
  rest_effects :: "rest_effect list"

definition new_RestClient :: "string \<Rightarrow> string \<Rightarrow> string \<Rightarrow> RestClient" where
  "new_RestClient u k p =
     \<lparr> baseUrl = u, rest_apiKey = k, rest_projectId = p, pollingIntervals = [],
       intervals = [], nextInterval = 0, inflight = [], rest_effects = [] \<rparr>"

definition rest_emit :: "rest_effect \<Rightarrow> RestClient \<Rightarrow> RestClient" where
  "rest_emit e r = r\<lparr>rest_effects := rest_effects r @ [e]\<rparr>"

subsection \<open>createDonationSession\<close>

text \<open>
  The part of \<^verbatim>\<open>createDonationSession\<close> before its first \<^verbatim>\<open>await\<close>: the
  validation throws, or the request is issued. The body of the request is built
  from the options and is not modelled further.
\<close>

definition wallet_missing :: "code_units option \<Rightarrow> bool" where
  "wallet_missing w =
     (case w of None \<Rightarrow> True | Some cs \<Rightarrow> cs = [] \<or> trim cs = [])"

definition RestClient_createDonationSession ::
  "create_options \<Rightarrow> RestClient \<Rightarrow> (rest_failure + unit) \<times> RestClient" where
  "RestClient_createDonationSession options r =
     (if wallet_missing (creatorWallet options) then (Inl CreatorWalletRequired, r)
      else (Inr (), rest_emit (PostSession options) r))"

text \<open>The rest of it, once the response is there.\<close>

definition RestClient_createDonationSession_resume ::
  "DonationSession fetched \<Rightarrow> rest_failure + DonationSession" where
  "RestClient_createDonationSession_resume response =
     (case response of Failed \<Rightarrow> Inl CreateFailed | Fetched data \<Rightarrow> Inr data)"

subsection \<open>Polling\<close>

definition startPolling :: "string \<Rightarrow> poll_callback \<Rightarrow> RestClient \<Rightarrow> RestClient" where
  "startPolling sessionId cb r =
     (if map_of (pollingIntervals r) sessionId \<noteq> None then r
      else r\<lparr>intervals := intervals r @ [(nextInterval r, sessionId, cb)],
             nextInterval := Suc (nextInterval r),
             pollingIntervals := pollingIntervals r @ [(sessionId, nextInterval r)]\<rparr>)"

definition stopPolling :: "string \<Rightarrow> RestClient \<Rightarrow> RestClient" where
  "stopPolling sessionId r =
     (case map_of (pollingIntervals r) sessionId of
        None \<Rightarrow> r
      | Some t \<Rightarrow>
          rest_emit (ClearInterval t)
            (r\<lparr>intervals := filter (\<lambda>e. fst e \<noteq> t) (intervals r),
               pollingIntervals := filter (\<lambda>e. fst e \<noteq> sessionId) (pollingIntervals r)\<rparr>))"

definition stopAllPolling :: "RestClient \<Rightarrow> RestClient" where
  "stopAllPolling r =
     r\<lparr>intervals := filter (\<lambda>e. fst e \<notin> snd ` set (pollingIntervals r)) (intervals r),
       pollingIntervals := [],
       rest_effects := rest_effects r @ map (\<lambda>e. ClearInterval (snd e)) (pollingIntervals r)\<rparr>"

definition terminal :: "string \<Rightarrow> bool" where
  "terminal st \<longleftrightarrow> st = ''finalized'' \<or> st = ''failed'' \<or> st = ''expired''"

text \<open>
  A tick of the interval of \<^verbatim>\<open>startPolling\<close> starts the asynchronous function:
  the request for the session is issued and the function waits for it.
\<close>

definition poll_tick :: "string \<Rightarrow> poll_callback \<Rightarrow> RestClient \<Rightarrow> RestClient" where
  "poll_tick sessionId cb r =
     (rest_emit (GetSession sessionId) r)\<lparr>inflight := inflight r @ [(sessionId, cb)]\<rparr>"

text \<open>
  The function continues when the request has finished. The flag says whether the
  callback throws; the \<^verbatim>\<open>catch\<close> block covers the request and the callback
  alike.
\<close>

definition poll_resume ::
  "string \<Rightarrow> poll_callback \<Rightarrow> DonationSession fetched \<Rightarrow> bool \<Rightarrow> RestClient \<Rightarrow> RestClient" where
  "poll_resume sessionId cb response callback_throws r =
     (case response of
        Failed \<Rightarrow> rest_emit (PollingError sessionId) r
      | Fetched s \<Rightarrow>
          let r1 = rest_emit (InvokePoll cb s) r
          in if callback_throws then rest_emit (PollingError sessionId) r1
             else if terminal (status s) then stopPolling sessionId r1
             else r1)"

subsection \<open>Runs of the client\<close>

text \<open>
  An interval fires only while it is armed, and only a request in flight can
  finish.
\<close>

datatype rest_input =
    CallCreate create_options
  | CallStartPolling string poll_callback
  | CallStopPolling string
  | CallStopAllPolling
  | IntervalFires nat
  | RequestFinishes nat "DonationSession fetched" bool

fun rest_step :: "rest_input \<Rightarrow> RestClient \<Rightarrow> RestClient" where
  "rest_step (CallCreate options) r = snd (RestClient_createDonationSession options r)"
| "rest_step (CallStartPolling sessionId cb) r = startPolling sessionId cb r"
| "rest_step (CallStopPolling sessionId) r = stopPolling sessionId r"
| "rest_step CallStopAllPolling r = stopAllPolling r"
| "rest_step (IntervalFires t) r =
     (case map_of (intervals r) t of
        None \<Rightarrow> r
      | Some (sessionId, cb) \<Rightarrow> poll_tick sessionId cb r)"
| "rest_step (RequestFinishes n response callback_throws) r =
     (if n < length (inflight r) then
        poll_resume (fst (inflight r ! n)) (snd (inflight r ! n)) response callback_throws
          (r\<lparr>inflight := take n (inflight r) @ drop (Suc n) (inflight r)\<rparr>)
      else r)"

fun rest_run :: "rest_input list \<Rightarrow> RestClient \<Rightarrow> RestClient" where
  "rest_run [] r = r"
| "rest_run (x # xs) r = rest_run xs (rest_step x r)"

section \<open>Configuration (config.ts)\<close>

datatype GiveBitMode = testnet | mainnet

record mode_config =
  mode_apiEndpoint :: string
  mode_wsEndpoint :: string
  chainId :: int
  contractAddress :: string

definition getConfig :: "GiveBitMode \<Rightarrow> mode_config" where
  "getConfig m =
     (case m of
        testnet \<Rightarrow>
          \<lparr> mode_apiEndpoint = ''https://testnet.zidanmutaqin.dev/api'',
            mode_wsEndpoint = ''wss://testnet.zidanmutaqin.dev/api/ws'',
            chainId = 17000,
            contractAddress = ''0x5081968D6D4a1124D0B61C5E01F60dF928110ECE'' \<rparr>
      | mainnet \<Rightarrow>
          \<lparr> mode_apiEndpoint = ''https://mainnet.zidanmutaqin.dev/api'',
            mode_wsEndpoint = ''wss://mainnet.zidanmutaqin.dev/api/ws'',
            chainId = 1,
            contractAddress = ''0x'' \<rparr>)"

definition RECONNECT_ATTEMPTS :: int where
  "RECONNECT_ATTEMPTS = 5"

definition RECONNECT_DELAY :: int where
  "RECONNECT_DELAY = 3000"

section \<open>GiveBit, the facade\<close>

text \<open>
  \<^verbatim>\<open>GiveBitConfig\<close>; an optional property that is absent is \<open>None\<close>. The
  properties \<^verbatim>\<open>projectId\<close>, \<^verbatim>\<open>apiKey\<close>, \<^verbatim>\<open>reconnectAttempts\<close> and
  \<^verbatim>\<open>reconnectDelay\<close> carry the prefix \<open>cfg\<close>.
\<close>

record GiveBitConfig =
  cfg_projectId :: string
  cfg_apiKey :: string
  mode :: GiveBitMode
  wsEndpoint :: "string option"
  apiEndpoint :: "string option"
  cfg_reconnectAttempts :: "int option"
  cfg_reconnectDelay :: "int option"

datatype facade_failure = ManagerNotInitialized | ClientNotInitialized | Rest rest_failure

datatype outcome = Fulfilled | Rejection failure

text \<open>
  A subscriber's function. The number names the function: \<^verbatim>\<open>off\<close> looks for it by
  identity. Its behaviour says what the function does to the registry while it
  runs with a given event: it may subscribe functions, unsubscribe functions
  (itself too), and throw, which ends it. Other calls of the facade from inside a
  subscriber are not followed.
\<close>

datatype 'h reaction = Subscribes string 'h | Unsubscribes string nat | Throws

datatype handler =
  Handler (handler_id: nat) (behaviour: "DonationEvent \<Rightarrow> handler reaction list")

text \<open>A subscriber that only receives.\<close>

definition inert :: "nat \<Rightarrow> handler" where
  "inert i = Handler i (\<lambda>data. [])"

text \<open>
  The promise of the manager that a \<^verbatim>\<open>connect()\<close> of the facade awaits: rejected
  at once because the socket could not be constructed, or the promise that the
  handlers of a socket settle.
\<close>

datatype awaited = RejectedAtOnce | OnSocket nat

text \<open>
  The fields of the class, followed by what surrounds them. \<open>creating\<close> counts the
  calls of \<^verbatim>\<open>createDonationSession\<close> that wait for the remote answer, and
  \<open>awaiting\<close> lists the sockets whose promise a call of \<^verbatim>\<open>connect()\<close> waits for.
  What the facade does to the outside: the invocations of subscribers' functions
  in \<open>delivered\<close>, the warnings and the errors of subscribers written to the
  console, and in \<open>connect_results\<close> how the promise of each call of
  \<^verbatim>\<open>connect()\<close> that got as far as its \<^verbatim>\<open>await\<close> was settled.
\<close>

record GiveBit =
  wsManager :: "WebSocketManager option"
  restClient :: "RestClient option"
  config :: GiveBitConfig
  eventListeners :: "string \<rightharpoonup> handler list"
  activeSessions :: "string set"
  creating :: nat
  awaiting :: "nat list"
  delivered :: "(nat \<times> DonationEvent) list"
  warnings :: "failure list"
  listener_errors :: "nat list"
  connect_results :: "(awaited \<times> outcome) list"

text \<open>\<^verbatim>\<open>a || b\<close> on an optional string.\<close>

definition or_else :: "string option \<Rightarrow> string \<Rightarrow> string" where
  "or_else a b = (case a of None \<Rightarrow> b | Some v \<Rightarrow> if v = [] then b else v)"

definition setupEventForwarding :: "WebSocketManager \<Rightarrow> WebSocketManager" where
  "setupEventForwarding w = fold (\<lambda>event. on event FacadeForward) event_kinds w"

text \<open>The constructor together with \<^verbatim>\<open>initializeEndpoints\<close>.\<close>

definition new_GiveBit :: "GiveBitConfig \<Rightarrow> GiveBit" where
  "new_GiveBit c =
     (let attempts = (case cfg_reconnectAttempts c of None \<Rightarrow> RECONNECT_ATTEMPTS | Some n \<Rightarrow> n);
          base = (case cfg_reconnectDelay c of None \<Rightarrow> RECONNECT_DELAY | Some d \<Rightarrow> d);
          c' = c\<lparr>cfg_reconnectAttempts := Some attempts, cfg_reconnectDelay := Some base\<rparr>;
          modeConfig = getConfig (mode c');
          wsUrl = or_else (wsEndpoint c') (mode_wsEndpoint modeConfig);
          apiUrl = or_else (apiEndpoint c') (mode_apiEndpoint modeConfig)
      in \<lparr> wsManager = Some (setupEventForwarding
             (new_WebSocketManager wsUrl (cfg_apiKey c') (cfg_projectId c') attempts base)),
           restClient = Some (new_RestClient apiUrl (cfg_apiKey c') (cfg_projectId c')),
           config = c', eventListeners = Map.empty, activeSessions = {}, creating = 0,
           awaiting = [], delivered = [], warnings = [], listener_errors = [],
           connect_results = [] \<rparr>)"

subsection \<open>Subscriptions and broadcast\<close>

definition GiveBit_on :: "string \<Rightarrow> handler \<Rightarrow> GiveBit \<Rightarrow> GiveBit" where
  "GiveBit_on event cb g =
     g\<lparr>eventListeners := (eventListeners g)(event \<mapsto>
          (case eventListeners g event of None \<Rightarrow> [] | Some cbs \<Rightarrow> cbs) @ [cb])\<rparr>"

text \<open>\<^verbatim>\<open>callbacks.splice(callbacks.indexOf(callback), 1)\<close> when the function is there.\<close>

fun splice_first :: "nat \<Rightarrow> handler list \<Rightarrow> handler list" where
  "splice_first i [] = []"
| "splice_first i (h # hs) = (if handler_id h = i then hs else h # splice_first i hs)"

definition GiveBit_off :: "string \<Rightarrow> nat \<Rightarrow> GiveBit \<Rightarrow> GiveBit" where
  "GiveBit_off event i g =
     (case eventListeners g event of
        None \<Rightarrow> g
      | Some cbs \<Rightarrow> g\<lparr>eventListeners := (eventListeners g)(event \<mapsto> splice_first i cbs)\<rparr>)"

text \<open>
  What a subscriber's function does while it runs, for the function named \<open>i\<close>.
  What it throws is caught by \<^verbatim>\<open>broadcastEvent\<close> and written to the console.
\<close>

fun react :: "handler reaction list \<Rightarrow> nat \<Rightarrow> GiveBit \<Rightarrow> GiveBit" where
  "react [] i g = g"
| "react (Subscribes event h # rs) i g = react rs i (GiveBit_on event h g)"
| "react (Unsubscribes event j # rs) i g = react rs i (GiveBit_off event j g)"
| "react (Throws # rs) i g = g\<lparr>listener_errors := listener_errors g @ [i]\<rparr>"

definition invoke :: "handler \<Rightarrow> DonationEvent \<Rightarrow> GiveBit \<Rightarrow> GiveBit" where
  "invoke h data g =
     react (behaviour h data) (handler_id h)
       (g\<lparr>delivered := delivered g @ [(handler_id h, data)]\<rparr>)"

text \<open>
  \<^verbatim>\<open>callbacks.forEach\<close>: the number of visits is the length of the array when the
  loop starts, and visit \<open>k\<close> invokes the element that is at index \<open>k\<close> of the
  array at that moment, if there still is one. The array of a kind is created
  once and then only pushed to and spliced, so it is the one the registry holds.
  The arguments are the kind, the event, the index and the visits left.
\<close>

fun forEach :: "string \<Rightarrow> DonationEvent \<Rightarrow> nat \<Rightarrow> nat \<Rightarrow> GiveBit \<Rightarrow> GiveBit" where
  "forEach event data k 0 g = g"
| "forEach event data k (Suc n) g =
     (case eventListeners g event of
        None \<Rightarrow> g
      | Some cbs \<Rightarrow>
          if k < length cbs then forEach event data (Suc k) n (invoke (cbs ! k) data g)
          else forEach event data (Suc k) n g)"

text \<open>
  \<^verbatim>\<open>broadcastEvent\<close>: the loop over the callbacks registered under the event's
  kind; a kind that is not a string, or has no array, has none.
\<close>

definition broadcastEvent :: "DonationEvent \<Rightarrow> GiveBit \<Rightarrow> GiveBit" where
  "broadcastEvent event g =
     (case type event of
        JStr k \<Rightarrow>
          (case eventListeners g k of
             None \<Rightarrow> g
           | Some cbs \<Rightarrow> forEach k event 0 (length cbs) g)
      | _ \<Rightarrow> g)"

subsection \<open>connect\<close>

text \<open>
  \<^verbatim>\<open>connect\<close> after its \<^verbatim>\<open>await\<close>, given how the manager's promise was
  settled: the outcome of the facade's own promise. \<open>settle_connect\<close> records that
  outcome for the awaited promise.
\<close>

definition GiveBit_connect_resume :: "outcome \<Rightarrow> GiveBit \<Rightarrow> outcome \<times> GiveBit" where
  "GiveBit_connect_resume inner g =
     (case inner of
        Fulfilled \<Rightarrow> (Fulfilled, g)
      | Rejection e \<Rightarrow> (Fulfilled, g\<lparr>warnings := warnings g @ [e]\<rparr>))"

definition settle_connect :: "awaited \<Rightarrow> outcome \<Rightarrow> GiveBit \<Rightarrow> GiveBit" where
  "settle_connect a inner g =
     (case GiveBit_connect_resume inner g of
        (out, g') \<Rightarrow> g'\<lparr>connect_results := connect_results g' @ [(a, out)]\<rparr>)"

text \<open>
  \<^verbatim>\<open>connect\<close>: it throws when there is no manager, otherwise it calls the
  manager's \<^verbatim>\<open>connect\<close> (the flag is the one of that function) and awaits the
  promise. When the manager rejected the promise at once, the function resumes
  with that rejection before anything else happens; otherwise it waits for the
  handlers of the new socket.
\<close>

definition GiveBit_connect :: "bool \<Rightarrow> GiveBit \<Rightarrow> (facade_failure + awaited) \<times> GiveBit" where
  "GiveBit_connect constructor_throws g =
     (case wsManager g of
        None \<Rightarrow> (Inl ManagerNotInitialized, g)
      | Some w \<Rightarrow>
          if constructor_throws then
            (Inr RejectedAtOnce,
             settle_connect RejectedAtOnce (Rejection ConstructorThrew)
               (g\<lparr>wsManager := Some (connect True w)\<rparr>))
          else
            (Inr (OnSocket (length (sockets w))),
             g\<lparr>wsManager := Some (connect False w),
               awaiting := awaiting g @ [length (sockets w)]\<rparr>))"

subsection \<open>createDonationSession and the poll callback\<close>

definition GiveBit_createDonationSession ::
  "create_options \<Rightarrow> GiveBit \<Rightarrow> (facade_failure + unit) \<times> GiveBit" where
  "GiveBit_createDonationSession options g =
     (case restClient g of
        None \<Rightarrow> (Inl ClientNotInitialized, g)
      | Some r \<Rightarrow>
          (case RestClient_createDonationSession options r of
             (Inl e, r') \<Rightarrow> (Inl (Rest e), g\<lparr>restClient := Some r'\<rparr>)
           | (Inr u, r') \<Rightarrow> (Inr (), g\<lparr>restClient := Some r', creating := Suc (creating g)\<rparr>)))"

definition GiveBit_createDonationSession_resume ::
  "DonationSession fetched \<Rightarrow> GiveBit \<Rightarrow> (facade_failure + DonationSession) \<times> GiveBit" where
  "GiveBit_createDonationSession_resume response g =
     (case RestClient_createDonationSession_resume response of
        Inl e \<Rightarrow> (Inl (Rest e), g\<lparr>creating := creating g - 1\<rparr>)
      | Inr s \<Rightarrow>
          (Inr s,
           g\<lparr>creating := creating g - 1,
             activeSessions := insert (session_id s) (activeSessions g),
             restClient := map_option (startPolling (session_id s) FacadePoll) (restClient g)\<rparr>))"

text \<open>The event built by the callback that the facade gives to \<^verbatim>\<open>startPolling\<close>.\<close>

definition poll_event :: "DonationSession \<Rightarrow> int \<Rightarrow> DonationEvent" where
  "poll_event updatedSession now =
     \<lparr> type = JStr (''donation_'' @ status updatedSession),
       session = FromPoll updatedSession, timestamp = JNum now, error = None \<rparr>"

subsection \<open>disconnect\<close>

definition GiveBit_disconnect :: "GiveBit \<Rightarrow> GiveBit" where
  "GiveBit_disconnect g =
     g\<lparr>wsManager := map_option disconnect (wsManager g),
       restClient := map_option stopAllPolling (restClient g),
       activeSessions := {}\<rparr>"

definition GiveBit_isConnected :: "GiveBit \<Rightarrow> bool" where
  "GiveBit_isConnected g = (case wsManager g of None \<Rightarrow> False | Some w \<Rightarrow> isConnected w)"

subsection \<open>Runs of the facade\<close>

text \<open>
  The manager and the client are private: what reaches them from outside the
  facade are socket events, timers and finished requests. The callbacks they then
  invoke are the facade's own arrow functions, which broadcast; those never throw,
  since \<^verbatim>\<open>broadcastEvent\<close> catches what a subscriber throws, and they leave the
  manager's registry alone. When a handler of the manager settles the promise
  that a \<^verbatim>\<open>connect()\<close> of the facade awaits, that function resumes; a promise
  keeps its first settlement.
\<close>

fun forward_channel :: "effect list \<Rightarrow> GiveBit \<Rightarrow> GiveBit" where
  "forward_channel [] g = g"
| "forward_channel (Invoke FacadeForward data # es) g = forward_channel es (broadcastEvent data g)"
| "forward_channel (ConnectResolve i # es) g =
     forward_channel es
       (if i \<in> set (awaiting g)
        then settle_connect (OnSocket i) Fulfilled (g\<lparr>awaiting := removeAll i (awaiting g)\<rparr>)
        else g)"
| "forward_channel (ConnectReject i e # es) g =
     forward_channel es
       (if i \<in> set (awaiting g)
        then settle_connect (OnSocket i) (Rejection e) (g\<lparr>awaiting := removeAll i (awaiting g)\<rparr>)
        else g)"
| "forward_channel (e # es) g = forward_channel es g"

fun forward_poll :: "int \<Rightarrow> rest_effect list \<Rightarrow> GiveBit \<Rightarrow> GiveBit" where
  "forward_poll now [] g = g"
| "forward_poll now (InvokePoll FacadePoll s # es) g =
     forward_poll now es (broadcastEvent (poll_event s now) g)"
| "forward_poll now (e # es) g = forward_poll now es g"

definition channel_input :: "input \<Rightarrow> GiveBit \<Rightarrow> GiveBit" where
  "channel_input x g =
     (case wsManager g of
        None \<Rightarrow> g
      | Some w \<Rightarrow>
          forward_channel (drop (length (effects w)) (effects (step x w)))
            (g\<lparr>wsManager := Some (step x w)\<rparr>))"

definition poll_input :: "rest_input \<Rightarrow> int \<Rightarrow> GiveBit \<Rightarrow> GiveBit" where
  "poll_input x now g =
     (case restClient g of
        None \<Rightarrow> g
      | Some r \<Rightarrow>
          forward_poll now (drop (length (rest_effects r)) (rest_effects (rest_step x r)))
            (g\<lparr>restClient := Some (rest_step x r)\<rparr>))"

fun from_runtime :: "input \<Rightarrow> bool" where
  "from_runtime (SocketOpens i now) = True"
| "from_runtime (SocketMessage i parsed now) = True"
| "from_runtime (SocketErrors i) = True"
| "from_runtime (SocketCloses i now) = True"
| "from_runtime (TimerFires t c) = True"
| "from_runtime x = False"

datatype facade_input =
    GConnect bool
  | GCreate create_options
  | GCreateAnswered "DonationSession fetched"
  | GOn string handler
  | GOff string nat
  | GDisconnect
  | Channel input
  | PollFires nat
  | PollFinishes nat "DonationSession fetched" int

fun facade_step :: "facade_input \<Rightarrow> GiveBit \<Rightarrow> GiveBit" where
  "facade_step (GConnect c) g = snd (GiveBit_connect c g)"
| "facade_step (GCreate options) g = snd (GiveBit_createDonationSession options g)"
| "facade_step (GCreateAnswered response) g =
     (if 0 < creating g then snd (GiveBit_createDonationSession_resume response g) else g)"
| "facade_step (GOn event cb) g = GiveBit_on event cb g"
| "facade_step (GOff event i) g = GiveBit_off event i g"
| "facade_step GDisconnect g = GiveBit_disconnect g"
| "facade_step (Channel x) g = (if from_runtime x then channel_input x g else g)"
| "facade_step (PollFires t) g = poll_input (IntervalFires t) 0 g"
| "facade_step (PollFinishes n response now) g =
     poll_input (RequestFinishes n response False) now g"

fun facade_run :: "facade_input list \<Rightarrow> GiveBit \<Rightarrow> GiveBit" where
  "facade_run [] g = g"
| "facade_run (x # xs) g = facade_run xs (facade_step x g)"

section \<open>Observations and example states\<close>

text \<open>The armed interval timers that poll a given session.\<close>

definition timers_of :: "string \<Rightarrow> RestClient \<Rightarrow> (nat \<times> string \<times> poll_callback) list" where
  "timers_of sessionId r = filter (\<lambda>e. fst (snd e) = sessionId) (intervals r)"

text \<open>The calls of \<^verbatim>\<open>resolve\<close> and \<^verbatim>\<open>reject\<close> of a request among the effects.\<close>

fun is_settlement :: "effect \<Rightarrow> bool" where
  "is_settlement (RequestResolve k v) = True"
| "is_settlement (RequestReject k e) = True"
| "is_settlement e = False"

text \<open>
  How often the request with identifier \<open>k\<close> has been settled: the number of calls
  of its \<^verbatim>\<open>resolve\<close> and \<^verbatim>\<open>reject\<close> among the effects.
\<close>

fun settles :: "string \<Rightarrow> effect \<Rightarrow> bool" where
  "settles k (RequestResolve k' v) = (k' = k)"
| "settles k (RequestReject k' e) = (k' = k)"
| "settles k e = False"

definition settled :: "string \<Rightarrow> WebSocketManager \<Rightarrow> nat" where
  "settled k s = length (filter (settles k) (effects s))"

text \<open>
  What holds of the requests in every run: timer handles are not reused; an armed
  request timeout belongs to the pending entry that stores its handle; a pending
  request has not been settled; identifiers that are pending or settled have been
  issued; and no request has been settled twice.
\<close>

definition request_inv :: "WebSocketManager \<Rightarrow> bool" where
  "request_inv s \<longleftrightarrow>
     distinct (map fst (timers s))
     \<and> (\<forall>e \<in> set (timers s). fst e < nextTimer s)
     \<and> (\<forall>e \<in> set (timers s). \<forall>k. kind (snd e) = RequestTimeout k \<longrightarrow>
           pendingRequests s k = Some \<lparr>timeout = fst e\<rparr>)
     \<and> (\<forall>k. pendingRequests s k \<noteq> None \<longrightarrow> settled k s = 0)
     \<and> (\<forall>k. pendingRequests s k \<noteq> None \<or> 0 < settled k s \<longrightarrow>
           (\<exists>n \<le> messageId s. k = decimal n))
     \<and> (\<forall>k. settled k s \<le> 1)"

text \<open>
  What holds of the client in every run: timer handles are not reused, every armed
  interval is the one \<^verbatim>\<open>pollingIntervals\<close> holds for its session, and every
  entry of \<^verbatim>\<open>pollingIntervals\<close> is armed.
\<close>

definition rest_inv :: "RestClient \<Rightarrow> bool" where
  "rest_inv r \<longleftrightarrow>
     distinct (map fst (intervals r))
     \<and> (\<forall>e \<in> set (intervals r). fst e < nextInterval r
            \<and> map_of (pollingIntervals r) (fst (snd e)) = Some (fst e))
     \<and> (\<forall>e \<in> set (pollingIntervals r). \<exists>cb. (snd e, fst e, cb) \<in> set (intervals r))"

text \<open>Inside the facade every polling callback is the facade's own.\<close>

definition facade_client_ok :: "RestClient \<Rightarrow> bool" where
  "facade_client_ok r \<longleftrightarrow> rest_inv r \<and> (\<forall>e \<in> set (intervals r). snd (snd e) = FacadePoll)"

text \<open>No promise of the facade's \<^verbatim>\<open>connect()\<close> has been rejected.\<close>

definition never_rejected :: "GiveBit \<Rightarrow> bool" where
  "never_rejected g \<longleftrightarrow> (\<forall>x \<in> set (connect_results g). snd x = Fulfilled)"

text \<open>The effects of the manager that settle the promise of a \<^verbatim>\<open>connect\<close> from a handler.\<close>

fun settles_connect :: "effect \<Rightarrow> bool" where
  "settles_connect (ConnectResolve i) = True"
| "settles_connect (ConnectReject i e) = True"
| "settles_connect x = False"

definition facade_inv :: "GiveBit \<Rightarrow> bool" where
  "facade_inv g \<longleftrightarrow>
     wsManager g \<noteq> None \<and> (\<exists>r. restClient g = Some r \<and> facade_client_ok r)
     \<and> never_rejected g"



text \<open>A manager with the default budget of five attempts and base delay of 3000 ms.\<close>

definition example_manager :: WebSocketManager where
  "example_manager = new_WebSocketManager ''wss://example.test/ws'' ''key'' ''project'' 5 3000"

text \<open>A manager that may not reconnect at all.\<close>

definition exhausted_manager :: WebSocketManager where
  "exhausted_manager = new_WebSocketManager ''wss://example.test/ws'' ''key'' ''project'' 0 3000"

text \<open>Its channel has opened.\<close>

definition opened_manager :: WebSocketManager where
  "opened_manager = run [CallConnect False, SocketOpens 0 1000] example_manager"

text \<open>Its first channel closed before it opened, so a reconnect is waiting.\<close>

definition retrying_manager :: WebSocketManager where
  "retrying_manager = run [CallConnect False, SocketCloses 0 1000] example_manager"

text \<open>\<^verbatim>\<open>connect()\<close> was called twice and both channels have opened.\<close>

definition twice_opened_manager :: WebSocketManager where
  "twice_opened_manager =
     run [CallConnect False, CallConnect False, SocketOpens 0 1000, SocketOpens 1 1100]
       example_manager"

text \<open>
  A manager with a budget of one attempt: its first channel closed before it
  opened, so the counter is at the maximum and the one reconnect is waiting.
\<close>

definition last_attempt_pending :: WebSocketManager where
  "last_attempt_pending =
     run [CallConnect False, SocketCloses 0 1000]
       (new_WebSocketManager ''wss://example.test/ws'' ''key'' ''project'' 1 3000)"

text \<open>The reconnect was made and its channel closed as well.\<close>

definition spent_manager :: WebSocketManager where
  "spent_manager = run [TimerFires 0 False, SocketCloses 1 2000] last_attempt_pending"

text \<open>One request has been sent and waits for its reply.\<close>

definition requesting_manager :: WebSocketManager where
  "requesting_manager = run [CallSend [(''action'', JStr ''x'')] False] opened_manager"

text \<open>One subscriber listens for confirmed donations.\<close>

definition listening_manager :: WebSocketManager where
  "listening_manager = run [CallOn ''donation_confirmed'' (Subscriber 1)] opened_manager"

definition empty_error_reply :: json where
  "empty_error_reply = JObj [(''id'', JStr ''1''), (''error'', JStr ''''), (''data'', JNum 7)]"

definition data_reply :: json where
  "data_reply = JObj [(''id'', JStr ''1''), (''data'', JNum 7)]"

definition error_reply :: json where
  "error_reply = JObj [(''id'', JStr ''1''), (''error'', JStr ''denied'')]"

definition unknown_reply :: json where
  "unknown_reply = JObj [(''id'', JStr ''2''), (''data'', JNum 7)]"

definition zero_timestamp_frame :: json where
  "zero_timestamp_frame = JObj [(''type'', JStr ''donation_confirmed''), (''timestamp'', JNum 0)]"

definition example_client :: RestClient where
  "example_client = new_RestClient ''https://testnet.zidanmutaqin.dev/api'' ''key'' ''project''"

definition example_session :: "string \<Rightarrow> DonationSession" where
  "example_session st =
     \<lparr> session_id = ''s1'', project_id = ''project'', creator_wallet = ''0xabc'',
       donor_wallet = [], chain_id = 17000, contract_address = ''0x5081'',
       amount = ''1'', memo = [], status = st, created_at = ''2025-01-01T00:00:00Z'',
       tx_hash = [], session_id_hash = ''h'', requires_confirmation = False,
       estimated_confirmation_time = 30 \<rparr>"

text \<open>A client that polls session \<open>s1\<close> for a caller; one tick waits for its answer.\<close>

definition waiting_client :: RestClient where
  "waiting_client =
     rest_run [CallStartPolling ''s1'' (PollSubscriber 1), IntervalFires 0] example_client"

definition example_config :: GiveBitConfig where
  "example_config =
     \<lparr> cfg_projectId = ''project'', cfg_apiKey = ''key'', mode = testnet,
       wsEndpoint = None, apiEndpoint = None, cfg_reconnectAttempts = None,
       cfg_reconnectDelay = None \<rparr>"

text \<open>Options with the wallet \<open>0xabc\<close>, and options whose wallet is a space and a tab.\<close>

definition example_options :: create_options where
  "example_options =
     \<lparr> requested_amount = JStr ''1'', currency = ''ETH'', network = ''holesky'',
       creatorWallet = Some [48, 120, 97, 98, 99], donorWallet = None, metadata = None \<rparr>"

definition blank_options :: create_options where
  "blank_options = example_options\<lparr>creatorWallet := Some [32, 9]\<rparr>"

text \<open>
  A facade with a subscriber for the kind \<open>donation_expired\<close>: a session is created
  and the first poll finds it expired.
\<close>

definition expired_poll :: GiveBit where
  "expired_poll =
     facade_run
       [GOn ''donation_expired'' (inert 7), GCreate example_options,
        GCreateAnswered (Fetched (example_session ''pending'')), PollFires 0,
        PollFinishes 0 (Fetched (example_session ''expired'')) 9000]
       (new_GiveBit example_config)"

text \<open>A facade with one subscriber whose \<^verbatim>\<open>connect()\<close> waits for its channel.\<close>

definition connecting_facade :: GiveBit where
  "connecting_facade =
     facade_run [GOn ''donation_confirmed'' (inert 3), GConnect False]
       (new_GiveBit example_config)"

text \<open>
  The channel failed to open: the socket reported an error and closed. A session
  was created afterwards.
\<close>

definition polling_only :: GiveBit where
  "polling_only =
     facade_run
       [Channel (SocketErrors 0), Channel (SocketCloses 0 500),
        GCreate example_options, GCreateAnswered (Fetched (example_session ''pending''))]
       connecting_facade"

text \<open>
  Two subscribers of one kind, the first of which unsubscribes itself when it is
  invoked.
\<close>

definition leaving_facade :: GiveBit where
  "leaving_facade =
     facade_run
       [GOn ''donation_pending'' (Handler 1 (\<lambda>data. [Unsubscribes ''donation_pending'' 1])),
        GOn ''donation_pending'' (inert 2)]
       (new_GiveBit example_config)"

section \<open>Properties of the manager\<close>

lemmas manager_defs =
  new_WebSocketManager_def emit_effect_def readyState_def arm_timer_def clear_timer_def
  on_def off_def emit_def startHeartbeat_def stopHeartbeat_def attemptReconnect_def
  connect_def connection_event_def onopen_def onerror_def onclose_def pending_match_def
  settle_reply_def frame_event_def route_def handleMessage_def with_id_def send_def
  close_socket_def disconnect_def isConnected_def fire_def property_def truthy_opt_def
  digit_def

lemmas manager_examples =
  example_manager_def exhausted_manager_def opened_manager_def retrying_manager_def
  twice_opened_manager_def last_attempt_pending_def spent_manager_def
  requesting_manager_def listening_manager_def empty_error_reply_def data_reply_def
  error_reply_def unknown_reply_def zero_timestamp_frame_def

declare decimal.simps [simp del]

lemma decimal_not_empty: "decimal n \<noteq> []"
  by (subst decimal.simps) simp

text \<open>The empty string is never the identifier of a pending request.\<close>

lemma step_keeps_empty_key:
  "pendingRequests s [] = None \<Longrightarrow> pendingRequests (step x s) [] = None"
proof (cases x)
  case (CallSend data c)
  assume "pendingRequests s [] = None"
  then show ?thesis using CallSend decimal_not_empty [of "Suc (messageId s)"]
    by (auto simp: send_def Let_def arm_timer_def clear_timer_def emit_effect_def
          split: option.splits)
next
  case (SocketMessage i parsed now)
  assume "pendingRequests s [] = None"
  then show ?thesis using SocketMessage
    by (auto simp: handleMessage_def route_def settle_reply_def emit_def emit_effect_def
          clear_timer_def split: option.splits json.splits)
next
  case (TimerFires t c)
  assume "pendingRequests s [] = None"
  then show ?thesis using TimerFires
    by (auto simp: fire_def connect_def emit_effect_def clear_timer_def Let_def
          split: option.splits timer_kind.splits)
qed (auto simp: manager_defs Let_def split: option.splits)

lemma run_keeps_empty_key:
  "pendingRequests s [] = None \<Longrightarrow> pendingRequests (run xs s) [] = None"
  by (induction xs arbitrary: s) (simp_all add: step_keeps_empty_key)





text \<open>Request identifiers are distinct, and the invariant of the requests holds in every run.\<close>

lemma digit_inj: "a < 10 \<Longrightarrow> b < 10 \<Longrightarrow> digit a = digit b \<Longrightarrow> a = b"
proof -
  assume "a < 10" "b < 10" "digit a = digit b"
  moreover have "distinct ''0123456789''" by simp
  moreover have "length ''0123456789'' = 10" by simp
  ultimately show "a = b"
    unfolding digit_def by (metis nth_eq_iff_index_eq)
qed

lemma decimal_length: "length (decimal n) = 1 \<longleftrightarrow> n < 10"
proof (cases "n < 10")
  case True
  then show ?thesis by (subst decimal.simps) simp
next
  case False
  have "decimal (n div 10) \<noteq> []" by (rule decimal_not_empty)
  then have "length (decimal (n div 10)) \<noteq> 0" by simp
  with False show ?thesis by (subst decimal.simps) simp
qed

lemma decimal_inj: "decimal n = decimal m \<Longrightarrow> n = m"
proof (induction n arbitrary: m rule: decimal.induct)
  case (1 n)
  from "1.prems" have len: "n < 10 \<longleftrightarrow> m < 10"
    using decimal_length [of n] decimal_length [of m] by simp
  show ?case
  proof (cases "n < 10")
    case True
    with len have m: "m < 10" by simp
    from "1.prems" True m have "digit n = digit m"
      by (simp add: decimal.simps [of n] decimal.simps [of m])
    with True m show ?thesis by (rule digit_inj)
  next
    case False
    with len have m: "\<not> m < 10" by simp
    from "1.prems" False m
    have eq: "decimal (n div 10) @ [digit (n mod 10)] = decimal (m div 10) @ [digit (m mod 10)]"
      by (simp add: decimal.simps [of n] decimal.simps [of m])
    then have a: "decimal (n div 10) = decimal (m div 10)"
      and b: "digit (n mod 10) = digit (m mod 10)" by simp_all
    from "1.IH" [OF False a] have c: "n div 10 = m div 10" .
    from b have d: "n mod 10 = m mod 10" by (intro digit_inj) simp_all
    from c d show ?thesis by (metis div_mult_mod_eq)
  qed
qed


lemma request_inv_cong:
  assumes "request_inv s" and "timers s' = timers s" "nextTimer s' = nextTimer s"
    "pendingRequests s' = pendingRequests s" "messageId s' = messageId s"
    "effects s' = effects s"
  shows "request_inv s'"
  using assms by (simp add: request_inv_def settled_def)

lemma request_inv_new: "request_inv (new_WebSocketManager u a p m d)"
  by (simp add: request_inv_def settled_def new_WebSocketManager_def)

lemma request_inv_effect:
  assumes "request_inv s" and "\<not> is_settlement e"
  shows "request_inv (emit_effect e s)"
proof -
  have "\<not> settles k e" for k using assms(2) by (cases e) auto
  then have "settled k (emit_effect e s) = settled k s" for k
    by (simp add: settled_def emit_effect_def)
  with assms(1) show ?thesis by (simp add: request_inv_def emit_effect_def)
qed

lemma request_inv_emit:
  assumes "request_inv s"
  shows "request_inv (emit event data s)"
proof -
  have "filter (settles k) (map (\<lambda>cb. Invoke cb data) cbs) = []" for k cbs
    by (induction cbs) simp_all
  then have "settled k (emit event data s) = settled k s" for k
    by (simp add: settled_def emit_def split: option.splits)
  moreover have "timers (emit event data s) = timers s"
    "nextTimer (emit event data s) = nextTimer s"
    "pendingRequests (emit event data s) = pendingRequests s"
    "messageId (emit event data s) = messageId s"
    by (simp_all add: emit_def split: option.splits)
  ultimately show ?thesis using assms by (simp add: request_inv_def)
qed

lemma request_inv_arm:
  assumes "request_inv s" and "\<And>k. kd \<noteq> RequestTimeout k"
  shows "request_inv (arm_timer kd d s)"
proof -
  have fresh: "nextTimer s \<notin> fst ` set (timers s)"
    using assms(1) by (fastforce simp: request_inv_def)
  have "settled k (arm_timer kd d s) = settled k s" for k
    by (simp add: settled_def arm_timer_def)
  with assms fresh show ?thesis
    by (auto simp: request_inv_def arm_timer_def less_Suc_eq)
qed

lemma request_inv_clear:
  assumes "request_inv s"
  shows "request_inv (clear_timer t s)"
proof -
  have "settled k (clear_timer t s) = settled k s" for k
    by (simp add: settled_def clear_timer_def)
  with assms show ?thesis
    by (auto simp: request_inv_def clear_timer_def distinct_map_filter)
qed


lemma request_inv_connect: "request_inv s \<Longrightarrow> request_inv (connect c s)"
proof -
  assume inv: "request_inv s"
  have "request_inv (s\<lparr>ws := Some i, sockets := sockets s @ [CONNECTING]\<rparr>)" for i
    by (rule request_inv_cong [OF inv]) simp_all
  with inv show ?thesis
    by (simp add: connect_def Let_def request_inv_effect)
qed

lemma request_inv_stopHeartbeat: "request_inv s \<Longrightarrow> request_inv (stopHeartbeat s)"
proof -
  assume inv: "request_inv s"
  have "request_inv ((clear_timer t s)\<lparr>heartbeatInterval := None\<rparr>)" for t
    by (rule request_inv_cong [OF request_inv_clear [OF inv, of t]]) simp_all
  with inv show ?thesis by (simp add: stopHeartbeat_def split: option.splits)
qed

lemma request_inv_startHeartbeat: "request_inv s \<Longrightarrow> request_inv (startHeartbeat s)"
proof -
  assume inv: "request_inv s"
  have "request_inv (arm_timer HeartbeatTimer 30000 s)"
    using inv by (rule request_inv_arm) simp
  then show ?thesis
    unfolding startHeartbeat_def by (rule request_inv_cong) simp_all
qed

lemma request_inv_attemptReconnect: "request_inv s \<Longrightarrow> request_inv (attemptReconnect s)"
proof -
  assume inv: "request_inv s"
  have 1: "request_inv (s\<lparr>reconnectAttempts := n\<rparr>)" for n
    by (rule request_inv_cong [OF inv]) simp_all
  have 2: "request_inv (arm_timer ReconnectTimer d (emit_effect (Console c) (s\<lparr>reconnectAttempts := n\<rparr>)))"
    for d c n
    by (rule request_inv_arm, rule request_inv_effect, rule 1) simp_all
  show ?thesis using inv 2
    by (simp add: attemptReconnect_def Let_def request_inv_effect)
qed

lemma request_inv_onopen: "request_inv s \<Longrightarrow> request_inv (onopen i now s)"
proof -
  assume inv: "request_inv s"
  have "request_inv ((emit_effect (Console LogConnected) s)\<lparr>reconnectAttempts := 0\<rparr>)"
    by (rule request_inv_cong [OF request_inv_effect [OF inv, of "Console LogConnected"]])
       simp_all
  then show ?thesis
    by (simp add: onopen_def request_inv_effect request_inv_emit request_inv_startHeartbeat)
qed

lemma request_inv_onerror: "request_inv s \<Longrightarrow> request_inv (onerror i s)"
  by (simp add: onerror_def request_inv_effect)

lemma request_inv_onclose: "request_inv s \<Longrightarrow> request_inv (onclose now s)"
  by (simp add: onclose_def request_inv_effect request_inv_emit request_inv_stopHeartbeat
        request_inv_attemptReconnect)

lemma request_inv_disconnect: "request_inv s \<Longrightarrow> request_inv (disconnect s)"
proof -
  assume inv: "request_inv s"
  let ?s1 = "stopHeartbeat s"
  have 1: "request_inv ?s1" using inv by (rule request_inv_stopHeartbeat)
  have 2: "request_inv (close_socket i ?s1)" for i
  proof -
    have "request_inv (?s1\<lparr>sockets := (sockets ?s1)[i := CLOSING]\<rparr>)"
      by (rule request_inv_cong [OF 1]) simp_all
    with 1 show ?thesis by (simp add: close_socket_def request_inv_effect)
  qed
  have "request_inv ((close_socket i ?s1)\<lparr>ws := None\<rparr>)" for i
    by (rule request_inv_cong [OF 2 [of i]]) simp_all
  with 1 show ?thesis by (simp add: disconnect_def Let_def split: option.splits)
qed

lemma request_inv_on: "request_inv s \<Longrightarrow> request_inv (on event cb s)"
  unfolding on_def by (erule request_inv_cong) simp_all

lemma request_inv_off: "request_inv s \<Longrightarrow> request_inv (off event cb s)"
  unfolding off_def by (erule request_inv_cong) (simp_all split: option.splits)


lemma known_key:
  "request_inv s \<Longrightarrow> pendingRequests s k \<noteq> None \<or> 0 < settled k s
   \<Longrightarrow> \<exists>n \<le> messageId s. k = decimal n"
  unfolding request_inv_def by blast

lemma fresh_key:
  assumes "request_inv s"
  shows "pendingRequests s (decimal (Suc (messageId s))) = None
         \<and> settled (decimal (Suc (messageId s))) s = 0"
proof -
  have "\<not> (\<exists>n \<le> messageId s. decimal (Suc (messageId s)) = decimal n)"
    by (auto dest: decimal_inj)
  with assms show ?thesis by (auto simp: request_inv_def)
qed

lemma request_inv_send:
  assumes "request_inv s"
  shows "request_inv (snd (send data c s))"
proof (cases "\<exists>i. ws s = Some i \<and> readyState s i = OPEN")
  case False
  then show ?thesis using assms by (auto simp: send_def split: option.splits)
next
  case True
  then obtain i where i: "ws s = Some i" "readyState s i = OPEN" by blast
  let ?k = "decimal (Suc (messageId s))"
  let ?t = "nextTimer s"
  from fresh_key [OF assms] have none: "pendingRequests s ?k = None"
    and zero: "settled ?k s = 0" by simp_all
  have fresh: "?t \<notin> fst ` set (timers s)"
    using assms by (fastforce simp: request_inv_def)
  let ?s2 = "s\<lparr>messageId := Suc (messageId s),
               timers := timers s @ [(?t, \<lparr>kind = RequestTimeout ?k, delay = 15000\<rparr>)],
               nextTimer := Suc ?t,
               pendingRequests := (pendingRequests s)(?k \<mapsto> \<lparr>timeout = ?t\<rparr>)\<rparr>"
  have s2: "request_inv ?s2"
    unfolding request_inv_def
  proof (intro conjI)
    show "distinct (map fst (timers ?s2))"
      using assms fresh by (simp add: request_inv_def)
    show "\<forall>e\<in>set (timers ?s2). fst e < nextTimer ?s2"
      using assms by (auto simp: request_inv_def less_Suc_eq)
    show "\<forall>e\<in>set (timers ?s2). \<forall>k. kind (snd e) = RequestTimeout k \<longrightarrow>
            pendingRequests ?s2 k = Some \<lparr>timeout = fst e\<rparr>"
      using assms none by (auto simp: request_inv_def)
    show "\<forall>k. pendingRequests ?s2 k \<noteq> None \<longrightarrow> settled k ?s2 = 0"
      using assms zero by (auto simp: request_inv_def settled_def)
    show "\<forall>k. pendingRequests ?s2 k \<noteq> None \<or> 0 < settled k ?s2 \<longrightarrow>
            (\<exists>n\<le>messageId ?s2. k = decimal n)"
    proof (intro allI impI)
      fix k assume a: "pendingRequests ?s2 k \<noteq> None \<or> 0 < settled k ?s2"
      show "\<exists>n\<le>messageId ?s2. k = decimal n"
      proof (cases "k = ?k")
        case True
        then show ?thesis by auto
      next
        case False
        with a have "pendingRequests s k \<noteq> None \<or> 0 < settled k s"
          by (simp add: settled_def)
        from known_key [OF assms this] obtain n where "n \<le> messageId s" "k = decimal n"
          by blast
        then have "n \<le> messageId ?s2 \<and> k = decimal n" by simp
        then show ?thesis by blast
      qed
    qed
    show "\<forall>k. settled k ?s2 \<le> 1"
      using assms by (simp add: request_inv_def settled_def)
  qed
  show ?thesis
  proof (cases c)
    case False
    have "snd (send data c s) = emit_effect (Transmit i (with_id ?k data)) ?s2"
      using i False by (simp add: send_def Let_def arm_timer_def)
    with s2 show ?thesis by (simp add: request_inv_effect)
  next
    case True
    let ?s3 = "(clear_timer ?t ?s2)\<lparr>pendingRequests := (pendingRequests ?s2)(?k := None)\<rparr>"
    have eq: "snd (send data c s) = emit_effect (RequestReject ?k SendThrew) ?s3"
      using i True by (simp add: send_def Let_def arm_timer_def)
    have tm: "timers ?s3 = timers s"
      using fresh by (force simp: clear_timer_def filter_id_conv)
    have pd: "pendingRequests ?s3 = pendingRequests s"
      using none by (auto simp: clear_timer_def)
    have st: "settled k (emit_effect (RequestReject ?k SendThrew) ?s3)
                = (if k = ?k then 1 else settled k s)" for k
      using zero by (simp add: settled_def emit_effect_def clear_timer_def)
    have "request_inv (emit_effect (RequestReject ?k SendThrew) ?s3)"
      unfolding request_inv_def
    proof (intro conjI)
      let ?s4 = "emit_effect (RequestReject ?k SendThrew) ?s3"
      have f: "timers ?s4 = timers s" "pendingRequests ?s4 = pendingRequests s"
        "nextTimer ?s4 = Suc ?t" "messageId ?s4 = Suc (messageId s)"
        using tm pd by (simp_all add: emit_effect_def clear_timer_def)
      show "distinct (map fst (timers ?s4))" using assms f by (simp add: request_inv_def)
      show "\<forall>e\<in>set (timers ?s4). fst e < nextTimer ?s4"
        using assms f by (auto simp: request_inv_def less_Suc_eq)
      show "\<forall>e\<in>set (timers ?s4). \<forall>k. kind (snd e) = RequestTimeout k \<longrightarrow>
              pendingRequests ?s4 k = Some \<lparr>timeout = fst e\<rparr>"
        using assms f by (simp add: request_inv_def)
      show "\<forall>k. pendingRequests ?s4 k \<noteq> None \<longrightarrow> settled k ?s4 = 0"
        using assms none unfolding st f by (auto simp: request_inv_def)
      show "\<forall>k. pendingRequests ?s4 k \<noteq> None \<or> 0 < settled k ?s4 \<longrightarrow>
              (\<exists>n\<le>messageId ?s4. k = decimal n)"
        unfolding st f
      proof (intro allI impI)
        fix k assume a: "pendingRequests s k \<noteq> None \<or> 0 < (if k = ?k then 1 else settled k s)"
        show "\<exists>n\<le>Suc (messageId s). k = decimal n"
        proof (cases "k = ?k")
          case True
          then show ?thesis by auto
        next
          case False
          with a have "pendingRequests s k \<noteq> None \<or> 0 < settled k s" by simp
          from known_key [OF assms this] obtain n where "n \<le> messageId s" "k = decimal n"
            by blast
          then have "n \<le> Suc (messageId s) \<and> k = decimal n" by simp
          then show ?thesis by blast
        qed
      qed
      show "\<forall>k. settled k ?s4 \<le> 1"
        using assms unfolding st by (simp add: request_inv_def)
    qed
    with eq show ?thesis by simp
  qed
qed


lemma request_inv_settle:
  assumes inv: "request_inv s" and p: "pendingRequests s k = Some pc"
      and e: "settles k e" "\<And>k'. k' \<noteq> k \<Longrightarrow> \<not> settles k' e"
  shows "request_inv (emit_effect e
           ((clear_timer (timeout pc) s)\<lparr>pendingRequests := (pendingRequests s)(k := None)\<rparr>))"
    (is "request_inv ?s'")
proof -
  have zero: "settled k s = 0" using inv p by (simp add: request_inv_def)
  have st: "settled k' ?s' = (if k' = k then 1 else settled k' s)" for k'
    using e zero by (simp add: settled_def emit_effect_def clear_timer_def)
  have f: "timers ?s' = filter (\<lambda>e. fst e \<noteq> timeout pc) (timers s)"
    "pendingRequests ?s' = (pendingRequests s)(k := None)"
    "nextTimer ?s' = nextTimer s" "messageId ?s' = messageId s"
    by (simp_all add: emit_effect_def clear_timer_def)
  show ?thesis
    unfolding request_inv_def st f
  proof (intro conjI)
    show "distinct (map fst (filter (\<lambda>e. fst e \<noteq> timeout pc) (timers s)))"
      using inv by (simp add: request_inv_def distinct_map_filter)
    show "\<forall>e\<in>set (filter (\<lambda>e. fst e \<noteq> timeout pc) (timers s)). fst e < nextTimer s"
      using inv by (simp add: request_inv_def)
    show "\<forall>e\<in>set (filter (\<lambda>e. fst e \<noteq> timeout pc) (timers s)).
            \<forall>k'. kind (snd e) = RequestTimeout k' \<longrightarrow>
              ((pendingRequests s)(k := None)) k' = Some \<lparr>timeout = fst e\<rparr>"
    proof (intro ballI allI impI)
      fix x k'
      assume x: "x \<in> set (filter (\<lambda>e. fst e \<noteq> timeout pc) (timers s))"
        and kd: "kind (snd x) = RequestTimeout k'"
      from x kd inv have old: "pendingRequests s k' = Some \<lparr>timeout = fst x\<rparr>"
        by (simp add: request_inv_def)
      have "k' \<noteq> k"
      proof
        assume "k' = k"
        with old p have "timeout pc = fst x" by simp
        with x show False by simp
      qed
      with old show "((pendingRequests s)(k := None)) k' = Some \<lparr>timeout = fst x\<rparr>" by simp
    qed
    show "\<forall>k'. ((pendingRequests s)(k := None)) k' \<noteq> None \<longrightarrow>
            (if k' = k then 1 else settled k' s) = 0"
      using inv by (simp add: request_inv_def)
    show "\<forall>k'. ((pendingRequests s)(k := None)) k' \<noteq> None
                 \<or> 0 < (if k' = k then 1 else settled k' s) \<longrightarrow>
            (\<exists>n\<le>messageId s. k' = decimal n)"
    proof (intro allI impI)
      fix k'
      assume a: "((pendingRequests s)(k := None)) k' \<noteq> None
                 \<or> 0 < (if k' = k then 1 else settled k' s)"
      have "pendingRequests s k' \<noteq> None \<or> 0 < settled k' s"
        using a p by (cases "k' = k") auto
      then show "\<exists>n\<le>messageId s. k' = decimal n" by (rule known_key [OF inv])
    qed
    show "\<forall>k'. (if k' = k then 1 else settled k' s) \<le> 1"
      using inv by (simp add: request_inv_def)
  qed
qed

lemma request_inv_handleMessage:
  assumes "request_inv s"
  shows "request_inv (handleMessage parsed now s)"
proof (cases parsed)
  case None
  then show ?thesis using assms by (simp add: handleMessage_def request_inv_effect)
next
  case (Some message)
  show ?thesis
  proof (cases "pending_match message s")
    case None
    then show ?thesis using Some assms
      by (auto simp: handleMessage_def route_def request_inv_effect request_inv_emit
            split: option.splits json.splits)
  next
    case (Some k)
    then obtain pc where pc: "pendingRequests s k = Some pc"
      by (auto simp: pending_match_def split: option.splits json.splits if_splits)
    let ?s1 = "(clear_timer (timeout pc) s)\<lparr>pendingRequests := (pendingRequests s)(k := None)\<rparr>"
    have "\<exists>e. settle_reply k message ?s1 = emit_effect e ?s1 \<and> settles k e
              \<and> (\<forall>k'. k' \<noteq> k \<longrightarrow> \<not> settles k' e)"
      by (auto simp: settle_reply_def split: option.splits)
    then obtain e where e: "settle_reply k message ?s1 = emit_effect e ?s1" "settles k e"
      "\<And>k'. k' \<noteq> k \<Longrightarrow> \<not> settles k' e" by blast
    have "request_inv (settle_reply k message ?s1)"
      unfolding e(1) using assms pc e(2) e(3) by (rule request_inv_settle)
    then show ?thesis using \<open>parsed = Some message\<close> Some pc assms
      by (simp add: handleMessage_def route_def request_inv_effect)
  qed
qed

lemma request_inv_fire:
  assumes "request_inv s" and "map_of (timers s) t = Some tm"
  shows "request_inv (fire t (kind tm) c s)"
proof (cases "kind tm")
  case ReconnectTimer
  then show ?thesis using assms(1)
    by (simp add: fire_def request_inv_connect request_inv_clear)
next
  case HeartbeatTimer
  then show ?thesis using assms(1)
    by (simp add: fire_def request_inv_effect split: option.splits)
next
  case (RequestTimeout r)
  from assms(2) have "(t, tm) \<in> set (timers s)" by (rule map_of_SomeD)
  with assms(1) RequestTimeout have p: "pendingRequests s r = Some \<lparr>timeout = t\<rparr>"
    by (fastforce simp: request_inv_def)
  have "request_inv (emit_effect (RequestReject r RequestTimedOut)
           ((clear_timer (timeout \<lparr>timeout = t\<rparr>) s)
              \<lparr>pendingRequests := (pendingRequests s)(r := None)\<rparr>))"
    using assms(1) p by (rule request_inv_settle) simp_all
  then show ?thesis using RequestTimeout by (simp add: fire_def)
qed

lemma request_inv_step: "request_inv s \<Longrightarrow> request_inv (step x s)"
proof (cases x)
  case (SocketOpens i now)
  assume inv: "request_inv s"
  have "request_inv (s\<lparr>sockets := (sockets s)[i := OPEN]\<rparr>)"
    by (rule request_inv_cong [OF inv]) simp_all
  then show ?thesis using SocketOpens inv by (simp add: request_inv_onopen)
next
  case (SocketCloses i now)
  assume inv: "request_inv s"
  have "request_inv (s\<lparr>sockets := (sockets s)[i := CLOSED]\<rparr>)"
    by (rule request_inv_cong [OF inv]) simp_all
  then show ?thesis using SocketCloses inv by (simp add: request_inv_onclose)
next
  case (TimerFires t c)
  assume "request_inv s"
  then show ?thesis using TimerFires
    by (simp add: request_inv_fire split: option.splits)
qed (simp_all add: request_inv_connect request_inv_disconnect request_inv_send
       request_inv_on request_inv_off request_inv_handleMessage request_inv_onerror)

lemma request_inv_run: "request_inv s \<Longrightarrow> request_inv (run xs s)"
  by (induction xs arbitrary: s) (simp_all add: request_inv_step)

text \<open>Effects are only ever appended.\<close>

lemma effects_grow_step: "\<exists>es. effects (step x s) = effects s @ es"
proof (cases x)
  case (CallSend data c)
  then show ?thesis
    by (auto simp: send_def Let_def arm_timer_def clear_timer_def emit_effect_def
          split: option.splits)
next
  case (SocketMessage i parsed now)
  then show ?thesis
    by (auto simp: handleMessage_def route_def settle_reply_def emit_def emit_effect_def
          clear_timer_def split: option.splits json.splits)
next
  case (TimerFires t c)
  then show ?thesis
    by (auto simp: fire_def connect_def emit_effect_def clear_timer_def Let_def
          split: option.splits timer_kind.splits)
qed (auto simp: manager_defs Let_def split: option.splits)

lemma settled_mono_run: "settled k s \<le> settled k (run xs s)"
proof (induction xs arbitrary: s)
  case Nil
  then show ?case by simp
next
  case (Cons x xs)
  from effects_grow_step [of x s] have "settled k s \<le> settled k (step x s)"
    by (auto simp: settled_def)
  with Cons.IH [of "step x s"] show ?case by simp
qed

subsection \<open>C1: what follows an explicit disconnect\<close>

text \<open>
  C1 requires that after \<^verbatim>\<open>disconnect()\<close> the heartbeat is stopped, the attempt
  counter is zero and no connect attempt follows until \<^verbatim>\<open>connect()\<close> is called.
  The code does not do that. When a channel has closed unexpectedly and its
  reconnect is waiting, \<^verbatim>\<open>disconnect()\<close> leaves the counter at 1 and the reconnect
  timer armed, and the timer then opens a second channel. When the channel is
  open, the close handler of the channel that \<^verbatim>\<open>disconnect()\<close> closed arms a
  reconnect; the timer fires, the new channel opens and the manager is connected
  again, with no call of \<^verbatim>\<open>connect()\<close>. And when two channels have opened, only
  the heartbeat started last is stopped: the first stays armed.
\<close>

theorem reconnect_after_disconnect:
  "reconnectAttempts (disconnect retrying_manager) = 1
   \<and> map snd (timers (disconnect retrying_manager)) = [\<lparr>kind = ReconnectTimer, delay = 3000\<rparr>]
   \<and> effects (step (TimerFires 0 False) (disconnect retrying_manager))
       = effects (disconnect retrying_manager)
           @ [NewSocket 1 ''wss://example.test/ws'' ''key'' ''project'']
   \<and> map snd (timers (run [CallDisconnect, SocketCloses 0 2000] opened_manager))
       = [\<lparr>kind = ReconnectTimer, delay = 3000\<rparr>]
   \<and> isConnected
        (run [CallDisconnect, SocketCloses 0 2000, TimerFires 1 False, SocketOpens 1 6000]
           opened_manager)
   \<and> heartbeatInterval (disconnect twice_opened_manager) = None
   \<and> timers (disconnect twice_opened_manager) = [(0, \<lparr>kind = HeartbeatTimer, delay = 30000\<rparr>)]"
  by (simp add: manager_defs manager_examples)

subsection \<open>C2: the attempt counter and the backoff\<close>




subsection \<open>C4: replies\<close>

text \<open>
  C4 says that a matching reply resolves the request if and only if no error field
  is present. The test is \<^verbatim>\<open>if (message.error)\<close>: a reply whose error field is
  present but is the empty string resolves the request with the data field.
\<close>

theorem empty_error_reply_resolves:
  "property empty_error_reply ''id'' = Some (JStr ''1'')
   \<and> pendingRequests requesting_manager ''1'' = Some \<lparr>timeout = 1\<rparr>
   \<and> property empty_error_reply ''error'' = Some (JStr '''')
   \<and> effects (handleMessage (Some empty_error_reply) 2000 requesting_manager)
       = effects requesting_manager @ [RequestResolve ''1'' (Some (JNum 7))]"
  by (simp add: manager_defs manager_examples decimal.simps Let_def)

text \<open>
  C4 as amended: in every state a run of the manager reaches, a reply frame whose
  identifier is that of a pending request removes the entry from the pending set,
  clears its timeout, and settles the request by exactly one call: \<^verbatim>\<open>reject\<close> with
  the reply's error if the error field is present and truthy, \<^verbatim>\<open>resolve\<close> with
  the reply's data field otherwise (error field absent or falsy). The request had
  not been settled before, and however the run continues it is not settled again.
  A frame whose
  identifier is that of no pending request leaves the pending set and the timers
  unchanged and settles nothing.
\<close>

theorem reply_settles_once:
  assumes "s = run xs (new_WebSocketManager u a p m d)"
  shows "(\<forall>k pc. property message ''id'' = Some (JStr k) \<and> pendingRequests s k = Some pc \<longrightarrow>
            pendingRequests (handleMessage (Some message) now s) = (pendingRequests s)(k := None)
            \<and> timers (handleMessage (Some message) now s)
                = filter (\<lambda>e. fst e \<noteq> timeout pc) (timers s)
            \<and> effects (handleMessage (Some message) now s) = effects s @
                [if truthy_opt (property message ''error'')
                 then RequestReject k (ReplyError (the (property message ''error'')))
                 else RequestResolve k (property message ''data'')]
            \<and> settled k s = 0
            \<and> settled k (run ys (handleMessage (Some message) now s)) = 1)
       \<and> ((\<forall>k. property message ''id'' = Some (JStr k) \<longrightarrow> pendingRequests s k = None) \<longrightarrow>
            pendingRequests (handleMessage (Some message) now s) = pendingRequests s
            \<and> timers (handleMessage (Some message) now s) = timers s
            \<and> filter is_settlement (effects (handleMessage (Some message) now s))
                = filter is_settlement (effects s))"
proof -
  have key: "pendingRequests s [] = None"
    using assms by (simp add: run_keeps_empty_key new_WebSocketManager_def)
  have inv: "request_inv s"
    using assms by (simp add: request_inv_run request_inv_new)
  have A: "pendingRequests (handleMessage (Some message) now s) = (pendingRequests s)(k := None)
            \<and> timers (handleMessage (Some message) now s)
                = filter (\<lambda>e. fst e \<noteq> timeout pc) (timers s)
            \<and> effects (handleMessage (Some message) now s) = effects s @
                [if truthy_opt (property message ''error'')
                 then RequestReject k (ReplyError (the (property message ''error'')))
                 else RequestResolve k (property message ''data'')]
            \<and> settled k s = 0
            \<and> settled k (run ys (handleMessage (Some message) now s)) = 1"
    if "property message ''id'' = Some (JStr k)" and "pendingRequests s k = Some pc" for k pc
  proof -
    let ?s' = "handleMessage (Some message) now s"
    from that key have "k \<noteq> []" by auto
    with that have m: "pending_match message s = Some k" by (simp add: pending_match_def)
    from that(1) have "message \<noteq> JNull" by (auto simp: property_def)
    with m that(2) have step: "pendingRequests ?s' = (pendingRequests s)(k := None)
            \<and> timers ?s' = filter (\<lambda>e. fst e \<noteq> timeout pc) (timers s)
            \<and> effects ?s' = effects s @
                [if truthy_opt (property message ''error'')
                 then RequestReject k (ReplyError (the (property message ''error'')))
                 else RequestResolve k (property message ''data'')]"
      by (simp add: handleMessage_def route_def settle_reply_def truthy_opt_def
            emit_effect_def clear_timer_def split: option.splits)
    have zero: "settled k s = 0" using inv that(2) by (simp add: request_inv_def)
    with step have one: "settled k ?s' = 1" by (simp add: settled_def)
    have "request_inv (run ys ?s')"
      using inv by (simp add: request_inv_run request_inv_handleMessage)
    then have "settled k (run ys ?s') \<le> 1" by (simp add: request_inv_def)
    with one settled_mono_run [of k ?s' ys] have "settled k (run ys ?s') = 1" by simp
    with step zero show ?thesis by simp
  qed
  have B: "pendingRequests (handleMessage (Some message) now s) = pendingRequests s
            \<and> timers (handleMessage (Some message) now s) = timers s
            \<and> filter is_settlement (effects (handleMessage (Some message) now s))
                = filter is_settlement (effects s)"
    if "\<forall>k. property message ''id'' = Some (JStr k) \<longrightarrow> pendingRequests s k = None"
  proof -
    from that have m: "pending_match message s = None"
      by (auto simp: pending_match_def split: option.splits json.splits)
    have inv: "filter is_settlement (map (\<lambda>cb. Invoke cb ev) cbs) = []" for ev cbs
      by (induction cbs) simp_all
    show ?thesis using m inv
      by (auto simp: handleMessage_def route_def emit_def emit_effect_def
            split: option.splits json.splits)
  qed
  from A B show ?thesis by blast
qed

theorem reply_settles_once_witness:
  "pendingRequests requesting_manager ''1'' = Some \<lparr>timeout = 1\<rparr>
   \<and> pendingRequests requesting_manager ''2'' = None
   \<and> pendingRequests (handleMessage (Some data_reply) 2000 requesting_manager) ''1'' = None
   \<and> map fst (timers (handleMessage (Some data_reply) 2000 requesting_manager)) = [0]
   \<and> effects (handleMessage (Some data_reply) 2000 requesting_manager)
       = effects requesting_manager @ [RequestResolve ''1'' (Some (JNum 7))]
   \<and> effects (handleMessage (Some error_reply) 2000 requesting_manager)
       = effects requesting_manager @ [RequestReject ''1'' (ReplyError (JStr ''denied''))]
   \<and> pendingRequests (handleMessage (Some unknown_reply) 2000 requesting_manager)
       = pendingRequests requesting_manager
   \<and> settled ''1''
        (run [SocketMessage 0 (Some error_reply) 3000]
           (handleMessage (Some data_reply) 2000 requesting_manager)) = 1"
proof -
  have r: "requesting_manager =
      run [CallConnect False, SocketOpens 0 1000, CallSend [(''action'', JStr ''x'')] False]
        (new_WebSocketManager ''wss://example.test/ws'' ''key'' ''project'' 5 3000)"
    by (simp add: manager_examples)
  have p: "pendingRequests requesting_manager = [''1'' \<mapsto> \<lparr>timeout = 1\<rparr>]"
    "timers requesting_manager =
       [(0, \<lparr>kind = HeartbeatTimer, delay = 30000\<rparr>),
        (1, \<lparr>kind = RequestTimeout ''1'', delay = 15000\<rparr>)]"
    by (simp_all add: manager_defs manager_examples decimal.simps Let_def)
  have f: "property data_reply ''id'' = Some (JStr ''1'')"
    "property data_reply ''error'' = None" "property data_reply ''data'' = Some (JNum 7)"
    "property error_reply ''id'' = Some (JStr ''1'')"
    "property error_reply ''error'' = Some (JStr ''denied'')"
    "property unknown_reply ''id'' = Some (JStr ''2'')"
    by (simp_all add: property_def manager_examples)
  from reply_settles_once
         [OF r, where message = data_reply and now = 2000
            and ys = "[SocketMessage 0 (Some error_reply) 3000]"]
    reply_settles_once [OF r, where message = error_reply and now = 2000]
    reply_settles_once [OF r, where message = unknown_reply and now = 2000] p f
  show ?thesis by (simp add: truthy_opt_def filter_map comp_def)
qed

subsection \<open>C8: send while not connected\<close>

text \<open>
  C8: when the handle is absent or its channel is not open, \<^verbatim>\<open>send\<close> rejects at
  once with the error "not connected" and the manager is left exactly as it was, so
  no pending request has been created and no identifier has been taken.
\<close>

theorem send_while_not_connected:
  assumes "ws s = None \<or> \<not> isConnected s"
  shows "send data transmit_throws s = (Rejected NotConnected, s)"
  using assms by (auto simp: send_def isConnected_def split: option.splits)

theorem send_while_not_connected_witness:
  "ws example_manager = None
   \<and> send [(''action'', JStr ''x'')] False example_manager
       = (Rejected NotConnected, example_manager)
   \<and> ws (connect False example_manager) = Some 0
   \<and> \<not> isConnected (connect False example_manager)
   \<and> send [(''action'', JStr ''x'')] False (connect False example_manager)
       = (Rejected NotConnected, connect False example_manager)"
proof -
  have 1: "ws example_manager = None \<or> \<not> isConnected example_manager"
    by (simp add: manager_defs manager_examples)
  have 2: "ws (connect False example_manager) = None
           \<or> \<not> isConnected (connect False example_manager)"
    by (simp add: manager_defs manager_examples)
  have 3: "ws example_manager = None" "ws (connect False example_manager) = Some 0"
    "\<not> isConnected (connect False example_manager)"
    by (simp_all add: manager_defs manager_examples)
  from send_while_not_connected [OF 1] send_while_not_connected [OF 2] 3
  show ?thesis by simp
qed

subsection \<open>C10: the timestamp of a routed event\<close>

text \<open>
  C10: a frame that is routed as an event (its identifier matches no pending
  request and its kind is a non-empty string) is delivered to the subscribers of
  its kind as one event each. The event carries the frame's timestamp only when
  that is truthy; when the timestamp field is absent, 0 or otherwise falsy, the
  event's timestamp is the receive time.
\<close>

theorem falsy_timestamp_replaced:
  assumes "pending_match message s = None"
      and "property message ''type'' = Some (JStr event)" and "event \<noteq> []"
      and "listeners s event = Some cbs"
  shows "effects (handleMessage (Some message) now s)
           = effects s @ map (\<lambda>cb. Invoke cb (frame_event (JStr event) message now)) cbs
       \<and> (\<not> truthy_opt (property message ''timestamp'') \<longrightarrow>
            timestamp (frame_event (JStr event) message now) = JNum now)
       \<and> (\<forall>v. property message ''timestamp'' = Some v \<and> truthy v \<longrightarrow>
            timestamp (frame_event (JStr event) message now) = v)"
proof -
  from assms(2) have "message \<noteq> JNull" by (auto simp: property_def)
  then show ?thesis using assms
    by (auto simp: handleMessage_def route_def emit_def frame_event_def truthy_opt_def
          split: option.splits)
qed

theorem falsy_timestamp_replaced_witness:
  "property zero_timestamp_frame ''timestamp'' = Some (JNum 0)
   \<and> effects (handleMessage (Some zero_timestamp_frame) 5000 listening_manager)
       = effects listening_manager @
           [Invoke (Subscriber 1)
              \<lparr> type = JStr ''donation_confirmed'', session = FromFrame None,
                timestamp = JNum 5000, error = None \<rparr>]"
proof -
  have 1: "pending_match zero_timestamp_frame listening_manager = None"
    by (simp add: manager_defs manager_examples)
  have 2: "property zero_timestamp_frame ''type'' = Some (JStr ''donation_confirmed'')"
    by (simp add: manager_defs manager_examples)
  have 3: "''donation_confirmed'' \<noteq> []" by simp
  have 4: "listeners listening_manager ''donation_confirmed'' = Some [Subscriber 1]"
    by (simp add: manager_defs manager_examples)
  have 5: "property zero_timestamp_frame ''timestamp'' = Some (JNum 0)"
    by (simp add: manager_defs manager_examples)
  from falsy_timestamp_replaced [OF 1 2 3 4, of 5000] 5 show ?thesis
    by (simp add: frame_event_def truthy_opt_def property_def zero_timestamp_frame_def)
qed

section \<open>Properties of the client\<close>

lemmas client_defs = new_RestClient_def rest_emit_def wallet_missing_def trim_def
  is_white_space_def RestClient_createDonationSession_def
  RestClient_createDonationSession_resume_def startPolling_def stopPolling_def
  stopAllPolling_def terminal_def poll_tick_def poll_resume_def

lemmas client_examples = example_client_def example_session_def waiting_client_def
  example_options_def blank_options_def

subsection \<open>The invariant of polling\<close>

lemma map_of_filter_other:
  "k \<noteq> k' \<Longrightarrow> map_of (filter (\<lambda>e. fst e \<noteq> k') xs) k = map_of xs k"
  by (induction xs) auto

lemma map_of_filter_same: "map_of (filter (\<lambda>e. fst e \<noteq> k) xs) k = None"
  by (induction xs) auto

lemma rest_inv_new: "rest_inv (new_RestClient u k p)"
  by (simp add: rest_inv_def new_RestClient_def)

lemma rest_inv_startPolling:
  assumes "rest_inv r" shows "rest_inv (startPolling sessionId cb r)"
proof (cases "map_of (pollingIntervals r) sessionId")
  case (Some t)
  then show ?thesis using assms by (simp add: startPolling_def)
next
  case None
  have fresh: "nextInterval r \<notin> fst ` set (intervals r)"
    using assms by (fastforce simp: rest_inv_def)
  have a: "distinct (map fst (intervals r @ [(nextInterval r, sessionId, cb)]))"
    using assms fresh by (simp add: rest_inv_def)
  have b: "map_of (pollingIntervals r @ [(sessionId, nextInterval r)]) (fst (snd e)) = Some (fst e)"
    if "e \<in> set (intervals r)" for e
    using that assms by (simp add: rest_inv_def map_add_def)
  have b': "map_of (pollingIntervals r @ [(sessionId, nextInterval r)]) sessionId
              = Some (nextInterval r)"
    using None by (simp add: map_add_def)
  have c: "\<exists>cb'. (snd e, fst e, cb') \<in> set (intervals r)"
    if "e \<in> set (pollingIntervals r)" for e
    using that assms by (simp add: rest_inv_def)
  have lt: "fst e < Suc (nextInterval r)" if "e \<in> set (intervals r)" for e
    using that assms by (fastforce simp: rest_inv_def)
  show ?thesis
    unfolding rest_inv_def startPolling_def using None a b b' c lt
    by (simp add: ball_Un) blast
qed

lemma rest_inv_stopPolling: 
  assumes "rest_inv r" shows "rest_inv (stopPolling sessionId r)"
proof (cases "map_of (pollingIntervals r) sessionId")
  case None
  then show ?thesis using assms by (simp add: stopPolling_def)
next
  case (Some t)
  from Some have mem: "(sessionId, t) \<in> set (pollingIntervals r)" by (rule map_of_SomeD)
  with assms obtain cb0 where armed: "(t, sessionId, cb0) \<in> set (intervals r)"
    by (fastforce simp: rest_inv_def)
  have d: "distinct (map fst (intervals r))" using assms by (simp add: rest_inv_def)
  have a: "distinct (map fst (filter (\<lambda>e. fst e \<noteq> t) (intervals r)))"
    using d by (rule distinct_map_filter)
  have b: "fst e < nextInterval r \<and>
           map_of (filter (\<lambda>e. fst e \<noteq> sessionId) (pollingIntervals r)) (fst (snd e)) = Some (fst e)"
    if "e \<in> set (intervals r)" "fst e \<noteq> t" for e
  proof -
    from that assms have 1: "fst e < nextInterval r"
      and 2: "map_of (pollingIntervals r) (fst (snd e)) = Some (fst e)"
      by (auto simp: rest_inv_def)
    from 2 Some that(2) have "fst (snd e) \<noteq> sessionId" by auto
    with 1 2 show ?thesis by (simp add: map_of_filter_other)
  qed
  have c: "\<exists>cb. (snd e, fst e, cb) \<in> set (filter (\<lambda>e. fst e \<noteq> t) (intervals r))"
    if "e \<in> set (pollingIntervals r)" "fst e \<noteq> sessionId" for e
  proof -
    from that assms obtain cb where 1: "(snd e, fst e, cb) \<in> set (intervals r)"
      by (auto simp: rest_inv_def)
    have "snd e \<noteq> t"
    proof
      assume "snd e = t"
      with 1 armed d have "(t, fst e, cb) = (t, sessionId, cb0)"
        by (metis eq_key_imp_eq_value)
      with that(2) show False by simp
    qed
    with 1 show ?thesis by auto
  qed
  show ?thesis
    using a b c Some by (auto simp: rest_inv_def stopPolling_def rest_emit_def)
qed

lemma rest_inv_stopAllPolling:
  assumes "rest_inv r" shows "rest_inv (stopAllPolling r)"
proof -
  have "fst e \<in> snd ` set (pollingIntervals r)" if "e \<in> set (intervals r)" for e
  proof -
    from that assms have "map_of (pollingIntervals r) (fst (snd e)) = Some (fst e)"
      by (simp add: rest_inv_def)
    then have "(fst (snd e), fst e) \<in> set (pollingIntervals r)" by (rule map_of_SomeD)
    then show ?thesis by force
  qed
  then have "filter (\<lambda>e. fst e \<notin> snd ` set (pollingIntervals r)) (intervals r) = []"
    by (simp add: filter_empty_conv)
  then show ?thesis by (simp add: rest_inv_def stopAllPolling_def)
qed


lemma rest_inv_poll_resume:
  "rest_inv r \<Longrightarrow> rest_inv (poll_resume sessionId cb response c (r\<lparr>inflight := q\<rparr>))"
proof -
  assume "rest_inv r"
  then have 0: "rest_inv (r\<lparr>inflight := q\<rparr>)" by (simp add: rest_inv_def)
  have 1: "rest_inv (rest_emit e r')" if "rest_inv r'" for e r'
    using that by (simp add: rest_inv_def rest_emit_def)
  show ?thesis using 0
    by (auto simp: poll_resume_def Let_def 1 rest_inv_stopPolling split: fetched.splits)
qed

lemma rest_inv_step: "rest_inv r \<Longrightarrow> rest_inv (rest_step x r)"
proof (cases x)
  case (CallCreate options)
  assume "rest_inv r"
  then show ?thesis using CallCreate
    by (simp add: RestClient_createDonationSession_def rest_inv_def rest_emit_def)
next
  case (IntervalFires t)
  assume "rest_inv r"
  then show ?thesis using IntervalFires
    by (simp add: poll_tick_def rest_inv_def rest_emit_def split: option.splits)
qed (simp_all add: rest_inv_startPolling rest_inv_stopPolling rest_inv_stopAllPolling
       rest_inv_poll_resume)

lemma rest_inv_run: "rest_inv r \<Longrightarrow> rest_inv (rest_run xs r)"
  by (induction xs arbitrary: r) (simp_all add: rest_inv_step)

lemma at_most_one:
  "distinct (map f xs) \<Longrightarrow> \<forall>x \<in> set xs. f x = c \<Longrightarrow> length xs \<le> 1"
  by (cases xs; cases "tl xs") auto

lemma timers_of_unique:
  assumes "rest_inv r" and "map_of (pollingIntervals r) sessionId = Some t"
  shows "\<exists>cb. timers_of sessionId r = [(t, sessionId, cb)]"
proof -
  from assms(2) have "(sessionId, t) \<in> set (pollingIntervals r)" by (rule map_of_SomeD)
  with assms(1) obtain cb where armed: "(t, sessionId, cb) \<in> set (intervals r)"
    by (fastforce simp: rest_inv_def)
  then have mem: "(t, sessionId, cb) \<in> set (timers_of sessionId r)" by (simp add: timers_of_def)
  have "distinct (map fst (timers_of sessionId r))"
    using assms(1) by (simp add: timers_of_def rest_inv_def distinct_map_filter)
  moreover have "\<forall>e \<in> set (timers_of sessionId r). fst e = t"
    using assms by (auto simp: timers_of_def rest_inv_def)
  ultimately have "length (timers_of sessionId r) \<le> 1" by (rule at_most_one)
  with mem show ?thesis by (cases "timers_of sessionId r") auto
qed

lemma timers_of_none:
  assumes "rest_inv r" and "map_of (pollingIntervals r) sessionId = None"
  shows "timers_of sessionId r = []"
  using assms by (auto simp: timers_of_def rest_inv_def filter_empty_conv)

lemma timers_of_stopPolling:
  assumes "rest_inv r"
  shows "timers_of sessionId (stopPolling sessionId r) = []
         \<and> map_of (pollingIntervals (stopPolling sessionId r)) sessionId = None"
proof -
  have inv: "rest_inv (stopPolling sessionId r)" using assms by (rule rest_inv_stopPolling)
  have none: "map_of (pollingIntervals (stopPolling sessionId r)) sessionId = None"
    by (simp add: stopPolling_def rest_emit_def map_of_filter_same split: option.splits)
  show ?thesis using timers_of_none [OF inv none] none by simp
qed

subsection \<open>C5: when polling stops\<close>

text \<open>
  C5 says that the timer is cancelled exactly when a tick fetches a terminal
  status. The callback runs inside the same \<^verbatim>\<open>try\<close> block, before the test of
  the status: when the callback throws on a tick that fetched \<open>finalized\<close>, the
  timer stays armed and the next tick issues another request.
\<close>

theorem throwing_callback_keeps_polling:
  "status (example_session ''finalized'') = ''finalized''
   \<and> inflight waiting_client = [(''s1'', PollSubscriber 1)]
   \<and> intervals (rest_step (RequestFinishes 0 (Fetched (example_session ''finalized'')) True)
        waiting_client) = [(0, ''s1'', PollSubscriber 1)]
   \<and> rest_effects (rest_run [RequestFinishes 0 (Fetched (example_session ''finalized'')) True,
        IntervalFires 0] waiting_client)
      = rest_effects waiting_client @
          [InvokePoll (PollSubscriber 1) (example_session ''finalized''),
           PollingError ''s1'', GetSession ''s1'']"
  by (simp add: client_defs client_examples)

text \<open>
  C5 as amended: in every state a run of the client reaches, when the request of
  a tick finishes with a session whose status is finalized, failed or expired and
  the callback returns, the callback is invoked first and the timer of that session
  is cancelled right after it: no interval timer remains armed for the session and
  the session is no longer in \<^verbatim>\<open>pollingIntervals\<close>. When the request yields any
  other status, or fails, the timers and \<^verbatim>\<open>pollingIntervals\<close> are unchanged, so
  polling continues with the next tick.
\<close>

theorem terminal_tick_stops_polling:
  assumes "r = rest_run xs (new_RestClient u k p)"
      and "n < length (inflight r)" and "inflight r ! n = (sessionId, cb)"
  shows "(status s \<in> {''finalized'', ''failed'', ''expired''} \<longrightarrow>
            timers_of sessionId (rest_step (RequestFinishes n (Fetched s) False) r) = []
            \<and> map_of (pollingIntervals (rest_step (RequestFinishes n (Fetched s) False) r)) sessionId = None
            \<and> rest_effects (rest_step (RequestFinishes n (Fetched s) False) r)
                = rest_effects r @ InvokePoll cb s #
                    (case map_of (pollingIntervals r) sessionId of
                       None \<Rightarrow> [] | Some t \<Rightarrow> [ClearInterval t]))
         \<and> (status s \<notin> {''finalized'', ''failed'', ''expired''} \<longrightarrow>
            intervals (rest_step (RequestFinishes n (Fetched s) False) r) = intervals r
            \<and> pollingIntervals (rest_step (RequestFinishes n (Fetched s) False) r) = pollingIntervals r
            \<and> rest_effects (rest_step (RequestFinishes n (Fetched s) False) r)
                = rest_effects r @ [InvokePoll cb s])
         \<and> intervals (rest_step (RequestFinishes n Failed c) r) = intervals r
         \<and> pollingIntervals (rest_step (RequestFinishes n Failed c) r) = pollingIntervals r
         \<and> rest_effects (rest_step (RequestFinishes n Failed c) r)
             = rest_effects r @ [PollingError sessionId]"
proof -
  have inv: "rest_inv r" using assms(1) by (simp add: rest_inv_run rest_inv_new)
  let ?q = "take n (inflight r) @ drop (Suc n) (inflight r)"
  let ?r1 = "rest_emit (InvokePoll cb s) (r\<lparr>inflight := ?q\<rparr>)"
  have inv1: "rest_inv ?r1" using inv by (simp add: rest_inv_def rest_emit_def)
  have stop: "rest_step (RequestFinishes n (Fetched s) False) r = stopPolling sessionId ?r1"
    if "terminal (status s)"
    using that assms(2,3) by (simp add: poll_resume_def)
  have eff: "rest_effects (stopPolling sessionId ?r1) = rest_effects r @ InvokePoll cb s #
               (case map_of (pollingIntervals r) sessionId of
                  None \<Rightarrow> [] | Some t \<Rightarrow> [ClearInterval t])"
    by (simp add: stopPolling_def rest_emit_def split: option.splits)
  have t: "terminal (status s) \<longleftrightarrow> status s \<in> {''finalized'', ''failed'', ''expired''}"
    by (simp add: terminal_def)
  have A: "status s \<in> {''finalized'', ''failed'', ''expired''} \<longrightarrow>
            timers_of sessionId (rest_step (RequestFinishes n (Fetched s) False) r) = []
            \<and> map_of (pollingIntervals (rest_step (RequestFinishes n (Fetched s) False) r)) sessionId = None
            \<and> rest_effects (rest_step (RequestFinishes n (Fetched s) False) r)
                = rest_effects r @ InvokePoll cb s #
                    (case map_of (pollingIntervals r) sessionId of
                       None \<Rightarrow> [] | Some t \<Rightarrow> [ClearInterval t])"
    using stop timers_of_stopPolling [OF inv1, of sessionId] eff t by simp
  have B: "status s \<notin> {''finalized'', ''failed'', ''expired''} \<longrightarrow>
            intervals (rest_step (RequestFinishes n (Fetched s) False) r) = intervals r
            \<and> pollingIntervals (rest_step (RequestFinishes n (Fetched s) False) r) = pollingIntervals r
            \<and> rest_effects (rest_step (RequestFinishes n (Fetched s) False) r)
                = rest_effects r @ [InvokePoll cb s]"
    using assms(2,3) t by (simp add: poll_resume_def rest_emit_def)
  have C: "intervals (rest_step (RequestFinishes n Failed c) r) = intervals r
         \<and> pollingIntervals (rest_step (RequestFinishes n Failed c) r) = pollingIntervals r
         \<and> rest_effects (rest_step (RequestFinishes n Failed c) r)
             = rest_effects r @ [PollingError sessionId]"
    using assms(2,3) by (simp add: poll_resume_def rest_emit_def)
  from A B C show ?thesis by blast
qed

theorem terminal_tick_stops_polling_witness:
  "inflight waiting_client ! 0 = (''s1'', PollSubscriber 1)
   \<and> timers_of ''s1'' waiting_client = [(0, ''s1'', PollSubscriber 1)]
   \<and> timers_of ''s1''
        (rest_step (RequestFinishes 0 (Fetched (example_session ''finalized'')) False)
           waiting_client) = []
   \<and> rest_effects
        (rest_step (RequestFinishes 0 (Fetched (example_session ''finalized'')) False)
           waiting_client)
       = rest_effects waiting_client @
           [InvokePoll (PollSubscriber 1) (example_session ''finalized''), ClearInterval 0]
   \<and> intervals
        (rest_step (RequestFinishes 0 (Fetched (example_session ''pending'')) False)
           waiting_client) = intervals waiting_client
   \<and> intervals (rest_step (RequestFinishes 0 Failed False) waiting_client)
       = intervals waiting_client"
proof -
  have r: "waiting_client =
      rest_run [CallStartPolling ''s1'' (PollSubscriber 1), IntervalFires 0]
        (new_RestClient ''https://testnet.zidanmutaqin.dev/api'' ''key'' ''project'')"
    by (simp add: client_examples)
  have n: "0 < length (inflight waiting_client)"
    and q: "inflight waiting_client ! 0 = (''s1'', PollSubscriber 1)"
    and m: "map_of (pollingIntervals waiting_client) ''s1'' = Some 0"
    and t: "timers_of ''s1'' waiting_client = [(0, ''s1'', PollSubscriber 1)]"
    by (simp_all add: client_defs client_examples timers_of_def)
  have st: "status (example_session ''finalized'') = ''finalized''"
    "status (example_session ''pending'') = ''pending''"
    by (simp_all add: example_session_def)
  from terminal_tick_stops_polling [OF r n q, of "example_session ''finalized''" False]
    terminal_tick_stops_polling [OF r n q, of "example_session ''pending''" False]
    q m t st
  show ?thesis by simp
qed

subsection \<open>C7: the wallet is validated before the request\<close>

text \<open>
  C7: when the wallet is absent, empty, or empty after trimming,
  \<^verbatim>\<open>createDonationSession\<close> of the client returns the rejection with the client
  unchanged, so no request has been issued, and so does the facade's function,
  which calls it first. Whenever the call issues a request, it is the one create
  request and the wallet is not empty after trimming.
\<close>

theorem missing_wallet_rejected_before_request:
  "(creatorWallet options = None \<or> creatorWallet options = Some []
      \<or> (\<exists>w. creatorWallet options = Some w \<and> trim w = []) \<longrightarrow>
      RestClient_createDonationSession options r = (Inl CreatorWalletRequired, r)
      \<and> (restClient g = Some r \<longrightarrow>
           GiveBit_createDonationSession options g = (Inl (Rest CreatorWalletRequired), g)))
   \<and> (rest_effects (snd (RestClient_createDonationSession options r)) \<noteq> rest_effects r \<longrightarrow>
        (\<exists>w. creatorWallet options = Some w \<and> trim w \<noteq> [])
        \<and> rest_effects (snd (RestClient_createDonationSession options r))
            = rest_effects r @ [PostSession options])"
proof -
  have same: "g\<lparr>restClient := Some r\<rparr> = g" if "restClient g = Some r"
    using that by (cases g) simp
  show ?thesis
    by (auto simp: RestClient_createDonationSession_def GiveBit_createDonationSession_def
          wallet_missing_def rest_emit_def same split: option.splits)
qed

theorem missing_wallet_rejected_before_request_witness:
  "creatorWallet blank_options = Some [32, 9] \<and> trim [32, 9] = []
   \<and> RestClient_createDonationSession blank_options example_client
       = (Inl CreatorWalletRequired, example_client)
   \<and> restClient (new_GiveBit example_config) = Some example_client
   \<and> GiveBit_createDonationSession blank_options (new_GiveBit example_config)
       = (Inl (Rest CreatorWalletRequired), new_GiveBit example_config)
   \<and> trim [48, 120, 97, 98, 99] = [48, 120, 97, 98, 99]
   \<and> rest_effects (snd (RestClient_createDonationSession example_options example_client))
       = [PostSession example_options]"
proof -
  have w: "creatorWallet blank_options = Some [32, 9]" "trim [32, 9] = []"
    "creatorWallet example_options = Some [48, 120, 97, 98, 99]"
    "trim [48, 120, 97, 98, 99] = [48, 120, 97, 98, 99]"
    by (simp_all add: client_defs client_examples)
  have g: "restClient (new_GiveBit example_config) = Some example_client"
    by (simp add: new_GiveBit_def example_config_def example_client_def getConfig_def
          or_else_def Let_def)
  have e: "rest_effects example_client = []"
    "rest_effects (snd (RestClient_createDonationSession example_options example_client))
       \<noteq> rest_effects example_client"
    by (simp_all add: client_defs client_examples)
  from missing_wallet_rejected_before_request
         [where options = blank_options and r = example_client
            and g = "new_GiveBit example_config"]
       missing_wallet_rejected_before_request
         [where options = example_options and r = example_client
            and g = "new_GiveBit example_config"] w g e
  show ?thesis by simp
qed

subsection \<open>C9: startPolling is idempotent\<close>

text \<open>
  C9: in every state a run of the client reaches, a second \<^verbatim>\<open>startPolling\<close> for
  the same session changes nothing, whatever callback it is given; after the two
  calls exactly one interval timer is armed for the session, and when the session
  was not polled before, that timer carries the callback of the first call. The
  client holds no reference to the channel, so this is so in every channel state.
\<close>

theorem startPolling_idempotent:
  assumes "r = rest_run xs (new_RestClient u k p)"
  shows "startPolling sessionId cb2 (startPolling sessionId cb1 r) = startPolling sessionId cb1 r
         \<and> length (timers_of sessionId (startPolling sessionId cb2 (startPolling sessionId cb1 r))) = 1
         \<and> (map_of (pollingIntervals r) sessionId = None \<longrightarrow>
              timers_of sessionId (startPolling sessionId cb2 (startPolling sessionId cb1 r))
                = [(nextInterval r, sessionId, cb1)])"
proof -
  let ?r1 = "startPolling sessionId cb1 r"
  have inv: "rest_inv r" using assms by (simp add: rest_inv_run rest_inv_new)
  then have inv1: "rest_inv ?r1" by (rule rest_inv_startPolling)
  have known: "map_of (pollingIntervals ?r1) sessionId \<noteq> None"
    by (simp add: startPolling_def map_add_def)
  then have idem: "startPolling sessionId cb2 ?r1 = ?r1"
    by (simp add: startPolling_def)
  from known obtain t where "map_of (pollingIntervals ?r1) sessionId = Some t" by auto
  with inv1 obtain cb where "timers_of sessionId ?r1 = [(t, sessionId, cb)]"
    using timers_of_unique by blast
  then have one: "length (timers_of sessionId ?r1) = 1" by simp
  have first: "timers_of sessionId ?r1 = [(nextInterval r, sessionId, cb1)]"
    if "map_of (pollingIntervals r) sessionId = None"
    using that timers_of_none [OF inv that]
    by (simp add: startPolling_def timers_of_def)
  show ?thesis using idem one first by simp
qed


theorem startPolling_idempotent_witness:
  "map_of (pollingIntervals example_client) ''s1'' = None
   \<and> startPolling ''s1'' (PollSubscriber 2) (startPolling ''s1'' (PollSubscriber 1) example_client)
       = startPolling ''s1'' (PollSubscriber 1) example_client
   \<and> timers_of ''s1''
        (startPolling ''s1'' (PollSubscriber 2)
           (startPolling ''s1'' (PollSubscriber 1) example_client))
       = [(0, ''s1'', PollSubscriber 1)]"
proof -
  have r: "example_client = rest_run [] (new_RestClient ''https://testnet.zidanmutaqin.dev/api'' ''key'' ''project'')"
    by (simp add: client_examples)
  have m: "map_of (pollingIntervals example_client) ''s1'' = None"
    "nextInterval example_client = 0"
    by (simp_all add: client_defs client_examples)
  from startPolling_idempotent [OF r, of "''s1''" "PollSubscriber 2" "PollSubscriber 1"] m
  show ?thesis by (simp add: client_defs client_examples timers_of_def)
qed

section \<open>Properties of the facade\<close>

lemmas facade_defs = getConfig_def RECONNECT_ATTEMPTS_def RECONNECT_DELAY_def or_else_def
  setupEventForwarding_def new_GiveBit_def GiveBit_on_def GiveBit_off_def inert_def invoke_def
  broadcastEvent_def GiveBit_connect_def GiveBit_connect_resume_def settle_connect_def
  GiveBit_createDonationSession_def GiveBit_createDonationSession_resume_def poll_event_def
  GiveBit_disconnect_def GiveBit_isConnected_def channel_input_def poll_input_def
  event_kinds_def

lemmas facade_examples = example_config_def expired_poll_def connecting_facade_def
  polling_only_def leaving_facade_def

subsection \<open>What a broadcast changes\<close>

lemma react_fields:
  "wsManager (react rs i g) = wsManager g
   \<and> restClient (react rs i g) = restClient g
   \<and> connect_results (react rs i g) = connect_results g
   \<and> warnings (react rs i g) = warnings g
   \<and> awaiting (react rs i g) = awaiting g
   \<and> delivered (react rs i g) = delivered g"
  by (induction rs i g rule: react.induct)
     (simp_all add: GiveBit_on_def GiveBit_off_def split: option.splits)

lemma invoke_fields:
  "wsManager (invoke h data g) = wsManager g
   \<and> restClient (invoke h data g) = restClient g
   \<and> connect_results (invoke h data g) = connect_results g
   \<and> warnings (invoke h data g) = warnings g
   \<and> awaiting (invoke h data g) = awaiting g
   \<and> delivered (invoke h data g) = delivered g @ [(handler_id h, data)]"
  by (simp add: invoke_def react_fields)

lemma forEach_fields:
  "wsManager (forEach event data k n g) = wsManager g
   \<and> restClient (forEach event data k n g) = restClient g
   \<and> connect_results (forEach event data k n g) = connect_results g
   \<and> warnings (forEach event data k n g) = warnings g
   \<and> awaiting (forEach event data k n g) = awaiting g"
  by (induction n arbitrary: k g) (simp_all add: invoke_fields split: option.splits)

lemma broadcastEvent_fields:
  "wsManager (broadcastEvent data g) = wsManager g
   \<and> restClient (broadcastEvent data g) = restClient g
   \<and> connect_results (broadcastEvent data g) = connect_results g
   \<and> warnings (broadcastEvent data g) = warnings g
   \<and> awaiting (broadcastEvent data g) = awaiting g"
  by (simp add: broadcastEvent_def forEach_fields split: json.splits option.splits)

text \<open>A broadcast only adds invocations.\<close>

lemma forEach_delivered_grows:
  "\<exists>ds. delivered (forEach event data k n g) = delivered g @ ds"
proof (induction n arbitrary: k g)
  case 0
  show ?case by simp
next
  case (Suc n)
  show ?case
  proof (cases "eventListeners g event")
    case None
    then show ?thesis by simp
  next
    case (Some cbs)
    show ?thesis
    proof (cases "k < length cbs")
      case True
      from Suc [of "Suc k" "invoke (cbs ! k) data g"] obtain ds
        where "delivered (forEach event data (Suc k) n (invoke (cbs ! k) data g))
                 = delivered (invoke (cbs ! k) data g) @ ds" by blast
      then show ?thesis using Some True by (simp add: invoke_fields)
    next
      case False
      then show ?thesis using Some Suc [of "Suc k" g] by simp
    qed
  qed
qed

text \<open>
  A subscriber that removes no function of the kind being broadcast leaves the
  functions registered before it in their places.
\<close>

lemma react_keeps_prefix:
  assumes "eventListeners g event = Some (hs @ ex)"
      and "\<forall>j. Unsubscribes event j \<notin> set rs"
  shows "\<exists>ex'. eventListeners (react rs i g) event = Some (hs @ ex')"
  using assms
proof (induction rs i g arbitrary: ex rule: react.induct)
  case (1 i g)
  then show ?case by simp
next
  case (2 ev h rs i g)
  have "\<exists>ex0. eventListeners (GiveBit_on ev h g) event = Some (hs @ ex0)"
    using "2.prems"(1) by (auto simp: GiveBit_on_def)
  then obtain ex0 where "eventListeners (GiveBit_on ev h g) event = Some (hs @ ex0)" by blast
  from "2.IH" [OF this] "2.prems"(2) show ?case by simp
next
  case (3 ev j rs i g)
  have "ev \<noteq> event" using "3.prems"(2) by auto
  then have "eventListeners (GiveBit_off ev j g) event = Some (hs @ ex)"
    using "3.prems"(1) by (simp add: GiveBit_off_def split: option.splits)
  from "3.IH" [OF this] "3.prems"(2) show ?case by simp
next
  case (4 rs i g)
  then show ?case by simp
qed

lemma forEach_delivers:
  assumes "eventListeners g event = Some (hs @ ex)"
      and "k + n = length hs"
      and "\<forall>h \<in> set hs. \<forall>j. Unsubscribes event j \<notin> set (behaviour h data)"
  shows "delivered (forEach event data k n g)
           = delivered g @ map (\<lambda>h. (handler_id h, data)) (drop k hs)"
  using assms
proof (induction n arbitrary: k g ex)
  case 0
  then show ?case by simp
next
  case (Suc n)
  have k: "k < length hs" using Suc.prems(2) by simp
  let ?h = "hs ! k"
  let ?g = "invoke ?h data g"
  have "?h \<in> set hs" using k by simp
  then have "\<forall>j. Unsubscribes event j \<notin> set (behaviour ?h data)"
    using Suc.prems(3) by blast
  from react_keeps_prefix [OF _ this, of "g\<lparr>delivered := delivered g @ [(handler_id ?h, data)]\<rparr>"
         hs ex "handler_id ?h"] Suc.prems(1)
  obtain ex' where "eventListeners ?g event = Some (hs @ ex')"
    by (auto simp: invoke_def)
  from Suc.IH [OF this _ Suc.prems(3), of "Suc k"] Suc.prems(2)
  have "delivered (forEach event data (Suc k) n ?g)
          = delivered ?g @ map (\<lambda>h. (handler_id h, data)) (drop (Suc k) hs)" by simp
  moreover have "forEach event data k (Suc n) g = forEach event data (Suc k) n ?g"
    using Suc.prems(1) k by (simp add: nth_append)
  moreover have "drop k hs = ?h # drop (Suc k) hs"
    using k by (simp add: Cons_nth_drop_Suc)
  ultimately show ?case by (simp add: invoke_fields)
qed

lemma broadcastEvent_delivers:
  assumes "type data = JStr k" and "eventListeners g k = Some hs"
      and "\<forall>h \<in> set hs. \<forall>j. Unsubscribes k j \<notin> set (behaviour h data)"
  shows "delivered (broadcastEvent data g)
           = delivered g @ map (\<lambda>h. (handler_id h, data)) hs"
  using forEach_delivers [of g k hs "[]" 0 "length hs" data] assms
  by (simp add: broadcastEvent_def)

lemma broadcastEvent_first:
  assumes "type data = JStr k" and "eventListeners g k = Some (h # hs)"
  shows "\<exists>ds. delivered (broadcastEvent data g) = delivered g @ (handler_id h, data) # ds"
proof -
  from forEach_delivered_grows [of k data "Suc 0" "length hs" "invoke h data g"]
  obtain ds where "delivered (forEach k data (Suc 0) (length hs) (invoke h data g))
                     = delivered (invoke h data g) @ ds" by blast
  then show ?thesis using assms by (simp add: broadcastEvent_def invoke_fields)
qed

text \<open>
  The loop reads the array as it is at each visit: when the first of two
  subscribers unsubscribes itself, the second moves to the index just visited and
  is not invoked for that event.
\<close>

lemma unsubscribing_during_broadcast:
  "delivered (broadcastEvent (poll_event (example_session ''pending'') 100) leaving_facade)
     = [(1, poll_event (example_session ''pending'') 100)]"
  by (simp add: facade_examples example_session_def facade_defs new_WebSocketManager_def
        new_RestClient_def on_def Let_def)

subsection \<open>What holds in every run of the facade\<close>

lemma forward_channel_append:
  "forward_channel (es @ fs) g = forward_channel fs (forward_channel es g)"
  by (induction es g rule: forward_channel.induct) simp_all

lemma forward_channel_fields:
  "wsManager (forward_channel es g) = wsManager g
   \<and> restClient (forward_channel es g) = restClient g"
  by (induction es g rule: forward_channel.induct)
     (simp_all add: broadcastEvent_fields settle_connect_def GiveBit_connect_resume_def)

lemma never_rejected_settle:
  "never_rejected g \<Longrightarrow> never_rejected (settle_connect a inner g)"
  by (cases inner)
     (auto simp: never_rejected_def settle_connect_def GiveBit_connect_resume_def)

lemma never_rejected_awaiting: "never_rejected (g\<lparr>awaiting := a\<rparr>) = never_rejected g"
  by (simp add: never_rejected_def)

lemma never_rejected_broadcastEvent:
  "never_rejected (broadcastEvent data g) = never_rejected g"
  by (simp add: never_rejected_def broadcastEvent_fields)

lemma forward_channel_fulfilled:
  "never_rejected g \<Longrightarrow> never_rejected (forward_channel es g)"
  by (induction es g rule: forward_channel.induct)
     (simp_all add: never_rejected_settle never_rejected_awaiting
        never_rejected_broadcastEvent)

text \<open>Effects other than settlements of a connect promise resume no \<^verbatim>\<open>connect()\<close>.\<close>

lemma forward_channel_unsettled:
  "(\<forall>e \<in> set es. \<not> settles_connect e)
   \<Longrightarrow> connect_results (forward_channel es g) = connect_results g
       \<and> warnings (forward_channel es g) = warnings g
       \<and> awaiting (forward_channel es g) = awaiting g"
  by (induction es g rule: forward_channel.induct) (simp_all add: broadcastEvent_fields)

lemma forward_poll_fields:
  "wsManager (forward_poll now es g) = wsManager g
   \<and> restClient (forward_poll now es g) = restClient g
   \<and> connect_results (forward_poll now es g) = connect_results g"
  by (induction now es g rule: forward_poll.induct) (simp_all add: broadcastEvent_fields)

lemma facade_inv_new: "facade_inv (new_GiveBit c)"
  by (simp add: facade_inv_def never_rejected_def facade_client_ok_def new_GiveBit_def Let_def
        rest_inv_new)
     (simp add: new_RestClient_def)

lemma intervals_stopPolling: "set (intervals (stopPolling sessionId r)) \<subseteq> set (intervals r)"
  by (auto simp: stopPolling_def rest_emit_def split: option.splits)

lemma intervals_rest_step:
  "(\<And>sessionId cb. x \<noteq> CallStartPolling sessionId cb)
   \<Longrightarrow> set (intervals (rest_step x r)) \<subseteq> set (intervals r)"
proof (cases x)
  case (RequestFinishes n response c)
  have "set (intervals (poll_resume sessionId cb response c r')) \<subseteq> set (intervals r')"
    for sessionId cb r'
    using intervals_stopPolling [of sessionId "rest_emit (InvokePoll cb s) r'" for s]
    by (auto simp: poll_resume_def rest_emit_def Let_def split: fetched.splits)
  from this [of _ _ "r\<lparr>inflight := take n (inflight r) @ drop (Suc n) (inflight r)\<rparr>"]
  show ?thesis using RequestFinishes by auto
qed (auto simp: RestClient_createDonationSession_def rest_emit_def stopPolling_def
       stopAllPolling_def poll_tick_def split: option.splits)

lemma facade_client_ok_step:
  assumes "facade_client_ok r" and "\<And>sessionId cb. x \<noteq> CallStartPolling sessionId cb"
  shows "facade_client_ok (rest_step x r)"
  using assms intervals_rest_step [of x r] rest_inv_step [of r x]
  by (auto simp: facade_client_ok_def)

lemma facade_client_ok_start:
  assumes "facade_client_ok r"
  shows "facade_client_ok (startPolling sessionId FacadePoll r)"
  using assms rest_inv_startPolling [of r sessionId FacadePoll]
  by (auto simp: facade_client_ok_def startPolling_def)

lemma facade_client_ok_stopAll:
  assumes "facade_client_ok r"
  shows "facade_client_ok (stopAllPolling r)"
  using assms facade_client_ok_step [of r CallStopAllPolling] by simp

lemma facade_inv_step:
  assumes "facade_inv g" shows "facade_inv (facade_step x g)"
proof -
  from assms obtain w r where w: "wsManager g = Some w" and r: "restClient g = Some r"
    and ok: "facade_client_ok r"
    and f: "never_rejected g"
    by (auto simp: facade_inv_def)
  show ?thesis
  proof (cases x)
    case (GConnect c)
    then show ?thesis using w r ok f
      by (auto simp: facade_inv_def never_rejected_def GiveBit_connect_def settle_connect_def
            GiveBit_connect_resume_def)
  next
    case (GCreate options)
    have "facade_client_ok (rest_emit e r)" for e
      using ok by (simp add: facade_client_ok_def rest_inv_def rest_emit_def)
    then show ?thesis using GCreate w r ok f
      by (simp add: facade_inv_def never_rejected_def GiveBit_createDonationSession_def
            RestClient_createDonationSession_def)
  next
    case (GCreateAnswered response)
    then show ?thesis using w r ok f assms facade_client_ok_start [OF ok]
      by (cases response)
         (simp_all add: facade_inv_def never_rejected_def
            GiveBit_createDonationSession_resume_def
            RestClient_createDonationSession_resume_def)
  next
    case (GOn event cb)
    then show ?thesis using w r ok f
      by (simp add: facade_inv_def never_rejected_def GiveBit_on_def)
  next
    case (GOff event cb)
    then show ?thesis using w r ok f
      by (simp add: facade_inv_def never_rejected_def GiveBit_off_def split: option.splits)
  next
    case GDisconnect
    then show ?thesis using w r ok f facade_client_ok_stopAll [OF ok]
      by (simp add: facade_inv_def never_rejected_def GiveBit_disconnect_def)
  next
    case (Channel y)
    have "never_rejected (forward_channel es (g\<lparr>wsManager := Some w'\<rparr>))" for es w'
      using f by (intro forward_channel_fulfilled) (simp add: never_rejected_def)
    then show ?thesis using Channel w r ok f
      by (simp add: facade_inv_def channel_input_def forward_channel_fields)
  next
    case (PollFires t)
    then show ?thesis using w r f facade_client_ok_step [OF ok, of "IntervalFires t"]
      by (simp add: facade_inv_def never_rejected_def poll_input_def forward_poll_fields)
  next
    case (PollFinishes n response now)
    then show ?thesis
      using w r f facade_client_ok_step [OF ok, of "RequestFinishes n response False"]
      by (simp add: facade_inv_def never_rejected_def poll_input_def forward_poll_fields)
  qed
qed

lemma facade_inv_run: "facade_inv g \<Longrightarrow> facade_inv (facade_run xs g)"
  by (induction xs arbitrary: g) (simp_all add: facade_inv_step)

lemma delivered_forward_poll_skip:
  "(\<forall>e \<in> set es. \<forall>s. e \<noteq> InvokePoll FacadePoll s) \<Longrightarrow> forward_poll now es g = g"
  by (induction now es g rule: forward_poll.induct) auto

text \<open>
  A tick of a timer that the facade armed, followed by the answer of its request:
  the client takes both steps and the fetched session is broadcast once.
\<close>

lemma poll_broadcasts:
  assumes "facade_client_ok r" and "restClient g = Some r"
      and "(t, sessionId, FacadePoll) \<in> set (intervals r)"
  shows "facade_run [PollFires t, PollFinishes (length (inflight r)) (Fetched s) now] g
           = broadcastEvent (poll_event s now)
               (g\<lparr>restClient :=
                    Some (rest_run [IntervalFires t,
                                    RequestFinishes (length (inflight r)) (Fetched s) False] r)\<rparr>)"
proof -
  have d: "distinct (map fst (intervals r))"
    using assms(1) by (simp add: facade_client_ok_def rest_inv_def)
  have armed: "map_of (intervals r) t = Some (sessionId, FacadePoll)"
    using d assms(3) by simp
  let ?r1 = "poll_tick sessionId FacadePoll r"
  let ?g1 = "g\<lparr>restClient := Some ?r1\<rparr>"
  have r1: "rest_step (IntervalFires t) r = ?r1" using armed by simp
  have tick: "facade_step (PollFires t) g = ?g1"
    using assms(2) armed
    by (simp add: poll_input_def poll_tick_def rest_emit_def)
  let ?r2 = "rest_step (RequestFinishes (length (inflight r)) (Fetched s) False) ?r1"
  have new: "\<exists>es. drop (length (rest_effects ?r1)) (rest_effects ?r2) = InvokePoll FacadePoll s # es
               \<and> (\<forall>e \<in> set es. \<forall>s'. e \<noteq> InvokePoll FacadePoll s')"
    by (auto simp: poll_tick_def poll_resume_def rest_emit_def stopPolling_def Let_def
          split: option.splits)
  then obtain es where es: "drop (length (rest_effects ?r1)) (rest_effects ?r2)
                              = InvokePoll FacadePoll s # es"
    and skip: "\<forall>e \<in> set es. \<forall>s'. e \<noteq> InvokePoll FacadePoll s'" by blast
  have "facade_step (PollFinishes (length (inflight r)) (Fetched s) now) ?g1
          = forward_poll now (InvokePoll FacadePoll s # es) (?g1\<lparr>restClient := Some ?r2\<rparr>)"
    using es by (simp add: poll_input_def)
  also have "\<dots> = broadcastEvent (poll_event s now) (?g1\<lparr>restClient := Some ?r2\<rparr>)"
    using delivered_forward_poll_skip [OF skip] by simp
  finally show ?thesis using tick r1 by simp
qed

text \<open>
  The promise that a pending \<^verbatim>\<open>connect()\<close> awaits, rejected by the error handler
  of its socket or resolved by the open handler.
\<close>

lemma awaited_socket_errors:
  assumes "wsManager g = Some w" and "i \<in> set (awaiting g)"
      and "i < length (sockets w)" and "sockets w ! i \<noteq> CLOSED"
  shows "connect_results (facade_step (Channel (SocketErrors i)) g)
           = connect_results g @ [(OnSocket i, Fulfilled)]
       \<and> warnings (facade_step (Channel (SocketErrors i)) g) = warnings g @ [SocketError]
       \<and> i \<notin> set (awaiting (facade_step (Channel (SocketErrors i)) g))"
  using assms
  by (simp add: channel_input_def onerror_def emit_effect_def settle_connect_def
        GiveBit_connect_resume_def)

lemma awaited_socket_opens:
  assumes "wsManager g = Some w" and "i \<in> set (awaiting g)"
      and "i < length (sockets w)" and "sockets w ! i = CONNECTING"
  shows "connect_results (facade_step (Channel (SocketOpens i now)) g)
           = connect_results g @ [(OnSocket i, Fulfilled)]
       \<and> warnings (facade_step (Channel (SocketOpens i now)) g) = warnings g
       \<and> i \<notin> set (awaiting (facade_step (Channel (SocketOpens i now)) g))"
proof -
  let ?w = "onopen i now (w\<lparr>sockets := (sockets w)[i := OPEN]\<rparr>)"
  let ?g = "g\<lparr>wsManager := Some ?w\<rparr>"
  obtain es where es: "drop (length (effects w)) (effects ?w) = es @ [ConnectResolve i]"
    and quiet: "\<forall>e \<in> set es. \<not> settles_connect e"
    by (auto simp: onopen_def emit_def emit_effect_def startHeartbeat_def arm_timer_def
          split: option.splits)
  let ?g1 = "forward_channel es ?g"
  from forward_channel_unsettled [OF quiet, of ?g]
  have same: "connect_results ?g1 = connect_results g" "warnings ?g1 = warnings g"
    "awaiting ?g1 = awaiting g" by simp_all
  have "facade_step (Channel (SocketOpens i now)) g = forward_channel [ConnectResolve i] ?g1"
    using assms(1,3,4) es by (simp add: channel_input_def forward_channel_append)
  then show ?thesis using same assms(2)
    by (simp add: settle_connect_def GiveBit_connect_resume_def)
qed

subsection \<open>C3: the kinds of broadcast events\<close>

text \<open>
  C3 requires every event broadcast to subscribers to carry one of the six kinds
  of \<^verbatim>\<open>DonationEvent\<close>. The poll callback names the event by prefixing the fetched
  status, and \<open>expired\<close> is one of the statuses of a session: when a poll finds the
  session expired, the subscriber registered for \<open>donation_expired\<close> is invoked with
  an event of that kind, which is none of the six.
\<close>

theorem expired_poll_kind:
  "delivered expired_poll =
     [(7, \<lparr> type = JStr ''donation_expired'', session = FromPoll (example_session ''expired''),
             timestamp = JNum 9000, error = None \<rparr>)]
   \<and> ''donation_expired'' \<notin> set event_kinds"
  by (simp add: facade_examples example_options_def example_session_def
        facade_defs client_defs new_WebSocketManager_def on_def Let_def)

subsection \<open>C6: connect of the facade\<close>

text \<open>
  C6: in every state \<open>g\<close> that a run of the facade reaches,

  \<^item> \<^verbatim>\<open>connect()\<close> does not throw: it calls the manager's \<^verbatim>\<open>connect\<close> and awaits
    its promise. When the socket cannot be constructed, the promise is rejected at
    once, the rejection is written to the console as a warning and the facade's
    promise is fulfilled; otherwise the call waits for the handlers of the socket
    just created;
  \<^item> when the error handler of a socket that a call waits for runs, that call's
    promise is fulfilled and the failure is written as a warning; when its open
    handler runs, the promise is fulfilled and nothing is written;
  \<^item> no promise of \<^verbatim>\<open>connect()\<close> has been rejected;
  \<^item> a session created in \<open>g\<close> is returned and polled by a timer with the facade's
    callback, and a tick of such a timer whose request yields a session takes the
    client's two steps and broadcasts one event, named by the fetched status,
    whatever the channel is doing;
  \<^item> such a broadcast invokes the first subscriber of the kind, and it invokes
    all of them, in the order of registration, when none of them unsubscribes
    a function of that kind while it runs (it may throw).
\<close>

theorem facade_connect_never_rejects:
  assumes "g = facade_run xs (new_GiveBit c)"
  shows "(\<exists>w0. wsManager g = Some w0
            \<and> GiveBit_connect True g
                = (Inr RejectedAtOnce,
                   g\<lparr>wsManager := Some (connect True w0),
                     warnings := warnings g @ [ConstructorThrew],
                     connect_results := connect_results g @ [(RejectedAtOnce, Fulfilled)]\<rparr>)
            \<and> GiveBit_connect False g
                = (Inr (OnSocket (length (sockets w0))),
                   g\<lparr>wsManager := Some (connect False w0),
                     awaiting := awaiting g @ [length (sockets w0)]\<rparr>))
       \<and> (wsManager g = Some w \<and> i \<in> set (awaiting g) \<and> i < length (sockets w)
            \<and> sockets w ! i \<noteq> CLOSED \<longrightarrow>
            connect_results (facade_step (Channel (SocketErrors i)) g)
              = connect_results g @ [(OnSocket i, Fulfilled)]
            \<and> warnings (facade_step (Channel (SocketErrors i)) g) = warnings g @ [SocketError]
            \<and> i \<notin> set (awaiting (facade_step (Channel (SocketErrors i)) g)))
       \<and> (wsManager g = Some w \<and> i \<in> set (awaiting g) \<and> i < length (sockets w)
            \<and> sockets w ! i = CONNECTING \<longrightarrow>
            connect_results (facade_step (Channel (SocketOpens i now)) g)
              = connect_results g @ [(OnSocket i, Fulfilled)]
            \<and> warnings (facade_step (Channel (SocketOpens i now)) g) = warnings g
            \<and> i \<notin> set (awaiting (facade_step (Channel (SocketOpens i now)) g)))
       \<and> (\<forall>x \<in> set (connect_results g). snd x = Fulfilled)
       \<and> fst (GiveBit_createDonationSession_resume (Fetched s0) g) = Inr s0
       \<and> (\<exists>r t. restClient (snd (GiveBit_createDonationSession_resume (Fetched s0) g)) = Some r
                \<and> (t, session_id s0, FacadePoll) \<in> set (intervals r))
       \<and> (restClient g = Some r \<and> (t, sessionId, FacadePoll) \<in> set (intervals r) \<longrightarrow>
            facade_run [PollFires t, PollFinishes (length (inflight r)) (Fetched s) now] g
              = broadcastEvent (poll_event s now)
                  (g\<lparr>restClient :=
                       Some (rest_run [IntervalFires t,
                                       RequestFinishes (length (inflight r)) (Fetched s) False]
                               r)\<rparr>))
       \<and> (type data = JStr k \<and> eventListeners g' k = Some (h # hs) \<longrightarrow>
            (\<exists>ds. delivered (broadcastEvent data g')
                    = delivered g' @ (handler_id h, data) # ds))
       \<and> (type data = JStr k \<and> eventListeners g' k = Some hs
            \<and> (\<forall>h \<in> set hs. \<forall>j. Unsubscribes k j \<notin> set (behaviour h data)) \<longrightarrow>
            delivered (broadcastEvent data g')
              = delivered g' @ map (\<lambda>h. (handler_id h, data)) hs)"
proof -
  have inv: "facade_inv g" using assms by (simp add: facade_inv_run facade_inv_new)
  then obtain w1 r0 where w: "wsManager g = Some w1" and r: "restClient g = Some r0"
    and ok: "facade_client_ok r0"
    and 4: "\<forall>x \<in> set (connect_results g). snd x = Fulfilled"
    by (auto simp: facade_inv_def never_rejected_def)
  have "GiveBit_connect True g
          = (Inr RejectedAtOnce,
             g\<lparr>wsManager := Some (connect True w1),
               warnings := warnings g @ [ConstructorThrew],
               connect_results := connect_results g @ [(RejectedAtOnce, Fulfilled)]\<rparr>)"
    and "GiveBit_connect False g
           = (Inr (OnSocket (length (sockets w1))),
              g\<lparr>wsManager := Some (connect False w1),
                awaiting := awaiting g @ [length (sockets w1)]\<rparr>)"
    using w by (simp_all add: GiveBit_connect_def settle_connect_def GiveBit_connect_resume_def)
  with w have 1: "\<exists>w0. wsManager g = Some w0
            \<and> GiveBit_connect True g
                = (Inr RejectedAtOnce,
                   g\<lparr>wsManager := Some (connect True w0),
                     warnings := warnings g @ [ConstructorThrew],
                     connect_results := connect_results g @ [(RejectedAtOnce, Fulfilled)]\<rparr>)
            \<and> GiveBit_connect False g
                = (Inr (OnSocket (length (sockets w0))),
                   g\<lparr>wsManager := Some (connect False w0),
                     awaiting := awaiting g @ [length (sockets w0)]\<rparr>)"
    by blast
  have 2: "wsManager g = Some w \<and> i \<in> set (awaiting g) \<and> i < length (sockets w)
            \<and> sockets w ! i \<noteq> CLOSED \<longrightarrow>
            connect_results (facade_step (Channel (SocketErrors i)) g)
              = connect_results g @ [(OnSocket i, Fulfilled)]
            \<and> warnings (facade_step (Channel (SocketErrors i)) g) = warnings g @ [SocketError]
            \<and> i \<notin> set (awaiting (facade_step (Channel (SocketErrors i)) g))"
    using awaited_socket_errors [of g w i] by blast
  have 3: "wsManager g = Some w \<and> i \<in> set (awaiting g) \<and> i < length (sockets w)
            \<and> sockets w ! i = CONNECTING \<longrightarrow>
            connect_results (facade_step (Channel (SocketOpens i now)) g)
              = connect_results g @ [(OnSocket i, Fulfilled)]
            \<and> warnings (facade_step (Channel (SocketOpens i now)) g) = warnings g
            \<and> i \<notin> set (awaiting (facade_step (Channel (SocketOpens i now)) g))"
    using awaited_socket_opens [of g w i now] by blast
  have 5: "fst (GiveBit_createDonationSession_resume (Fetched s0) g) = Inr s0"
    by (simp add: GiveBit_createDonationSession_resume_def
          RestClient_createDonationSession_resume_def)
  let ?r' = "startPolling (session_id s0) FacadePoll r0"
  have ok': "facade_client_ok ?r'" using ok by (rule facade_client_ok_start)
  have "map_of (pollingIntervals ?r') (session_id s0) \<noteq> None"
    by (simp add: startPolling_def map_add_def)
  then obtain t0 where "(session_id s0, t0) \<in> set (pollingIntervals ?r')"
    by (auto dest: map_of_SomeD)
  with ok' obtain cb where "(t0, session_id s0, cb) \<in> set (intervals ?r')"
    by (fastforce simp: facade_client_ok_def rest_inv_def)
  with ok' have "(t0, session_id s0, FacadePoll) \<in> set (intervals ?r')"
    by (fastforce simp: facade_client_ok_def)
  then have 6: "\<exists>r t. restClient (snd (GiveBit_createDonationSession_resume (Fetched s0) g)) = Some r
                \<and> (t, session_id s0, FacadePoll) \<in> set (intervals r)"
    using r by (auto simp: GiveBit_createDonationSession_resume_def
          RestClient_createDonationSession_resume_def)
  have 7: "restClient g = Some r \<and> (t, sessionId, FacadePoll) \<in> set (intervals r) \<longrightarrow>
            facade_run [PollFires t, PollFinishes (length (inflight r)) (Fetched s) now] g
              = broadcastEvent (poll_event s now)
                  (g\<lparr>restClient :=
                       Some (rest_run [IntervalFires t,
                                       RequestFinishes (length (inflight r)) (Fetched s) False]
                               r)\<rparr>)"
    using poll_broadcasts [OF ok, of g t sessionId s now] r by auto
  have 8: "type data = JStr k \<and> eventListeners g' k = Some (h # hs) \<longrightarrow>
            (\<exists>ds. delivered (broadcastEvent data g')
                    = delivered g' @ (handler_id h, data) # ds)"
    using broadcastEvent_first [of data k g' h hs] by blast
  have 9: "type data = JStr k \<and> eventListeners g' k = Some hs
            \<and> (\<forall>h \<in> set hs. \<forall>j. Unsubscribes k j \<notin> set (behaviour h data)) \<longrightarrow>
            delivered (broadcastEvent data g')
              = delivered g' @ map (\<lambda>h. (handler_id h, data)) hs"
    using broadcastEvent_delivers [of data k g' hs] by blast
  from 1 2 3 4 5 6 7 8 9 show ?thesis by blast
qed

theorem facade_connect_never_rejects_witness:
  "fst (GiveBit_connect False connecting_facade) = Inr (OnSocket 1)
   \<and> fst (GiveBit_connect True connecting_facade) = Inr RejectedAtOnce
   \<and> map_option sockets (wsManager (snd (GiveBit_connect False connecting_facade)))
       = Some [CONNECTING, CONNECTING]
   \<and> awaiting connecting_facade = [0]
   \<and> connect_results (facade_step (Channel (SocketErrors 0)) connecting_facade)
       = [(OnSocket 0, Fulfilled)]
   \<and> warnings (facade_step (Channel (SocketErrors 0)) connecting_facade) = [SocketError]
   \<and> connect_results (facade_step (Channel (SocketOpens 0 400)) connecting_facade)
       = [(OnSocket 0, Fulfilled)]
   \<and> warnings (facade_step (Channel (SocketOpens 0 400)) connecting_facade) = []
   \<and> \<not> GiveBit_isConnected polling_only
   \<and> warnings polling_only = [SocketError]
   \<and> connect_results polling_only = [(OnSocket 0, Fulfilled)]
   \<and> delivered
        (facade_run
           [PollFires 0, PollFinishes 0 (Fetched (example_session ''confirmed'')) 7000]
           polling_only)
       = [(3, \<lparr> type = JStr ''donation_confirmed'',
                 session = FromPoll (example_session ''confirmed''),
                 timestamp = JNum 7000, error = None \<rparr>)]"
proof -
  let ?ev = "poll_event (example_session ''confirmed'') 7000"
  have a: "connecting_facade =
     facade_run [GOn ''donation_confirmed'' (inert 3), GConnect False]
       (new_GiveBit example_config)"
    by (simp add: connecting_facade_def)
  have b: "polling_only =
     facade_run
       [GOn ''donation_confirmed'' (inert 3), GConnect False, Channel (SocketErrors 0),
        Channel (SocketCloses 0 500), GCreate example_options,
        GCreateAnswered (Fetched (example_session ''pending''))]
       (new_GiveBit example_config)"
    by (simp add: polling_only_def connecting_facade_def)
  have sa: "map_option sockets (wsManager connecting_facade) = Some [CONNECTING]"
    and aa: "awaiting connecting_facade = [0]"
    and ra: "connect_results connecting_facade = []"
    and wa: "warnings connecting_facade = []"
    by (simp_all add: facade_examples facade_defs manager_defs Let_def)
  from sa obtain w where w: "wsManager connecting_facade = Some w" "sockets w = [CONNECTING]"
    by auto
  have i: "map_option intervals (restClient polling_only) = Some [(0, ''s1'', FacadePoll)]"
    and q: "map_option inflight (restClient polling_only) = Some []"
    and d: "delivered polling_only = []"
    and l: "eventListeners polling_only ''donation_confirmed'' = Some [inert 3]"
    and c: "\<not> GiveBit_isConnected polling_only"
    and wb: "warnings polling_only = [SocketError]"
    and rb: "connect_results polling_only = [(OnSocket 0, Fulfilled)]"
    by (simp_all add: facade_examples example_options_def example_session_def facade_defs
          client_defs manager_defs Let_def)
  from i q obtain r where r: "restClient polling_only = Some r"
    "intervals r = [(0, ''s1'', FacadePoll)]" "inflight r = []"
    by auto
  let ?g' = "polling_only\<lparr>restClient :=
               Some (rest_run [IntervalFires 0,
                               RequestFinishes 0 (Fetched (example_session ''confirmed'')) False]
                       r)\<rparr>"
  from facade_connect_never_rejects
         [OF a, where w = w and i = 0 and now = 400 and g' = connecting_facade
            and data = ?ev and k = "''donation_confirmed''" and hs = "[]" and h = "inert 3"]
       w aa ra wa
  have first: "fst (GiveBit_connect False connecting_facade) = Inr (OnSocket 1)
     \<and> fst (GiveBit_connect True connecting_facade) = Inr RejectedAtOnce
     \<and> map_option sockets (wsManager (snd (GiveBit_connect False connecting_facade)))
         = Some [CONNECTING, CONNECTING]
     \<and> connect_results (facade_step (Channel (SocketErrors 0)) connecting_facade)
         = [(OnSocket 0, Fulfilled)]
     \<and> warnings (facade_step (Channel (SocketErrors 0)) connecting_facade) = [SocketError]
     \<and> connect_results (facade_step (Channel (SocketOpens 0 400)) connecting_facade)
         = [(OnSocket 0, Fulfilled)]
     \<and> warnings (facade_step (Channel (SocketOpens 0 400)) connecting_facade) = []"
    by (simp add: connect_def emit_effect_def)
  from facade_connect_never_rejects
         [OF b, where s = "example_session ''confirmed''" and now = 7000 and r = r and t = 0
            and sessionId = "''s1''" and data = ?ev and k = "''donation_confirmed''"
            and g' = ?g' and hs = "[inert 3]"]
       r d l
  have "delivered
        (facade_run
           [PollFires 0, PollFinishes 0 (Fetched (example_session ''confirmed'')) 7000]
           polling_only)
       = [(3, ?ev)]"
    by (simp add: poll_event_def example_session_def inert_def)
  with first aa c wb rb show ?thesis by (simp add: poll_event_def example_session_def)
qed

end
